theory Spec2Isabelle
  imports Main
begin

section \<open>The accessibility manager of xterm.js\<close>

text \<open>
  A shallow embedding of \<^verbatim>\<open>src/AccessibilityManager.ts\<close>: the classes
  \<^verbatim>\<open>AccessibilityManager\<close> and \<^verbatim>\<open>NavigationMode\<close>. The object state is split
  into views, one record per group of fields that the methods of that group read and
  write: the live region with the queue of pressed keys, the mirrored rows, the
  navigation mode and the disposal. DOM elements are identified by the order of their
  creation; a JavaScript exception is a value of type \<open>error\<close>.
\<close>

type_synonym node = nat

datatype error = TypeError | NotFoundError

subsection \<open>The live region\<close>

text \<open>
  \<^verbatim>\<open>const MAX_ROWS_TO_READ = 20;\<close>
\<close>

definition MAX_ROWS_TO_READ :: nat where
  "MAX_ROWS_TO_READ = 20"

text \<open>
  The content of the live region element is kept as the list of the pieces appended to
  it since it was last reset, each piece tagged with the statement that appended it:
  \<^item> \<open>Nbsp\<close>: \<^verbatim>\<open>this._liveRegion.innerHTML += '&nbsp;'\<close> (lines 136 and 143);
  \<^item> \<open>Literal c\<close>: \<^verbatim>\<open>this._liveRegion.textContent += char\<close> (lines 138 and 145)
    and \<^verbatim>\<open>this._liveRegion.textContent = text\<close> (line 207);
  \<^item> \<open>TooMuchOutput\<close>: the notice appended to \<^verbatim>\<open>textContent\<close> at line 152.

  \<open>textContent\<close> reads the text of the element back: the entity \<^verbatim>\<open>&nbsp;\<close> is the
  character U+00A0. A JavaScript string is a \<open>string\<close>, and the argument
  \<^verbatim>\<open>char\<close> of the methods is one, as in the source.
\<close>

datatype piece = Nbsp | Literal string | TooMuchOutput

definition space :: string where
  "space = [CHR 0x20]"

definition linefeed :: string where
  "linefeed = [CHR 0x0A]"

definition notice :: string where
  "notice = ''Too much output to announce, navigate to rows manually to read''"

fun piece_text :: "piece \<Rightarrow> string" where
  "piece_text Nbsp = [CHR 0xA0]"
| "piece_text (Literal c) = c"
| "piece_text TooMuchOutput = notice"

definition textContent :: "piece list \<Rightarrow> string" where
  "textContent ps = concat (map piece_text ps)"

text \<open>
  The fields of \<^verbatim>\<open>AccessibilityManager\<close> that the announcing methods use:
  \<^verbatim>\<open>_liveRegion\<close> (its content and whether it has a parent node),
  \<^verbatim>\<open>_liveRegionLineCount\<close> and \<^verbatim>\<open>_charsToConsume\<close>. \<open>reattachTimers\<close>
  counts the callbacks registered by \<^verbatim>\<open>setTimeout(..., 0)\<close> at line 159 that have
  not run yet.
\<close>

record announcer =
  liveRegion :: "piece list"
  liveRegionAttached :: bool
  liveRegionLineCount :: nat
  charsToConsume :: "string list"
  reattachTimers :: nat

text \<open>
  The state the constructor leaves: an empty live region appended to the root, no line
  counted, no key pending.
\<close>

definition new_announcer :: announcer where
  "new_announcer =
     \<lparr>liveRegion = [], liveRegionAttached = True, liveRegionLineCount = 0,
      charsToConsume = [], reattachTimers = 0\<rparr>"

text \<open>
  Lines 133 to 139 and 142 to 145: the two copies of the append, with the space written as
  \<^verbatim>\<open>&nbsp;\<close>.
\<close>

definition appendChar :: "announcer \<Rightarrow> string \<Rightarrow> announcer" where
  "appendChar s char =
     (if char = space then s\<lparr>liveRegion := liveRegion s @ [Nbsp]\<rparr>
      else s\<lparr>liveRegion := liveRegion s @ [Literal char]\<rparr>)"

text \<open>
  \<^verbatim>\<open>_onChar(char)\<close>, lines 127 to 165. \<open>isMac\<close> is the imported platform flag. The
  four steps are the guard on the line counter, the comparison with the shifted key,
  the counting of a line feed with the notice, and the reattachment on a Mac.
\<close>

definition consumeOrAppend :: "announcer \<Rightarrow> string \<Rightarrow> announcer" where
  "consumeOrAppend s char =
     (case charsToConsume s of
        shiftedChar # rest \<Rightarrow>
          (if shiftedChar \<noteq> char then appendChar (s\<lparr>charsToConsume := rest\<rparr>) char
           else s\<lparr>charsToConsume := rest\<rparr>)
      | [] \<Rightarrow> appendChar s char)"

definition countLine :: "announcer \<Rightarrow> string \<Rightarrow> announcer" where
  "countLine s char =
     (if char = linefeed then
        (let s' = s\<lparr>liveRegionLineCount := liveRegionLineCount s + 1\<rparr>
         in if liveRegionLineCount s' = MAX_ROWS_TO_READ + 1
            then s'\<lparr>liveRegion := liveRegion s' @ [TooMuchOutput]\<rparr>
            else s')
      else s)"

definition scheduleReattach :: "bool \<Rightarrow> announcer \<Rightarrow> announcer" where
  "scheduleReattach isMac s =
     (if isMac then
        (if length (textContent (liveRegion s)) > 0 \<and> \<not> liveRegionAttached s
         then s\<lparr>reattachTimers := reattachTimers s + 1\<rparr>
         else s)
      else s)"

definition onChar :: "bool \<Rightarrow> announcer \<Rightarrow> string \<Rightarrow> announcer" where
  "onChar isMac s char =
     (if liveRegionLineCount s < MAX_ROWS_TO_READ + 1
      then scheduleReattach isMac (countLine (consumeOrAppend s char) char)
      else s)"

text \<open>
  The callback of line 160, run by the timer:
  \<^verbatim>\<open>this._accessibilityTreeRoot.appendChild(this._liveRegion)\<close>.
\<close>

definition reattach :: "announcer \<Rightarrow> announcer" where
  "reattach s = s\<lparr>liveRegionAttached := True, reattachTimers := reattachTimers s - 1\<rparr>"

text \<open>\<^verbatim>\<open>_clearLiveRegion()\<close>, lines 167 to 177.\<close>

definition clearLiveRegion :: "bool \<Rightarrow> announcer \<Rightarrow> announcer" where
  "clearLiveRegion isMac s =
     (let s' = s\<lparr>liveRegion := [], liveRegionLineCount := 0\<rparr>
      in if isMac then
           (if liveRegionAttached s' then s'\<lparr>liveRegionAttached := False\<rparr> else s')
         else s')"

text \<open>\<^verbatim>\<open>_onKey(keyChar)\<close>, lines 179 to 182.\<close>

definition onKey :: "bool \<Rightarrow> announcer \<Rightarrow> string \<Rightarrow> announcer" where
  "onKey isMac s keyChar =
     (let s' = clearLiveRegion isMac s
      in s'\<lparr>charsToConsume := charsToConsume s' @ [keyChar]\<rparr>)"

text \<open>\<^verbatim>\<open>_onTab(spaceCount)\<close>, lines 121 to 125: the loop calls \<^verbatim>\<open>_onChar(' ')\<close>.\<close>

fun onTab :: "bool \<Rightarrow> announcer \<Rightarrow> nat \<Rightarrow> announcer" where
  "onTab isMac s 0 = s"
| "onTab isMac s (Suc spaceCount) = onTab isMac (onChar isMac s space) spaceCount"

text \<open>\<^verbatim>\<open>announce(text)\<close>, lines 205 to 208.\<close>

definition announce :: "bool \<Rightarrow> announcer \<Rightarrow> string \<Rightarrow> announcer" where
  "announce isMac s text = (clearLiveRegion isMac s)\<lparr>liveRegion := [Literal text]\<rparr>"

text \<open>A sequence of \<^verbatim>\<open>a11y.char\<close> and \<^verbatim>\<open>linefeed\<close> events, and one of \<^verbatim>\<open>key\<close> events.\<close>

fun onChars :: "bool \<Rightarrow> announcer \<Rightarrow> string list \<Rightarrow> announcer" where
  "onChars isMac s [] = s"
| "onChars isMac s (c # cs) = onChars isMac (onChar isMac s c) cs"

fun onKeys :: "bool \<Rightarrow> announcer \<Rightarrow> string list \<Rightarrow> announcer" where
  "onKeys isMac s [] = s"
| "onKeys isMac s (k # ks) = onKeys isMac (onKey isMac s k) ks"

subsection \<open>JavaScript arrays and DOM children\<close>

text \<open>
  A JavaScript array of elements is a list of optional nodes, \<open>None\<close> for a hole.
  Reading \<^verbatim>\<open>xs[i]\<close> out of range gives \<^verbatim>\<open>undefined\<close>; writing \<^verbatim>\<open>xs[i] = v\<close>
  past the end extends the array and leaves holes between the old end and \<open>i\<close>.
\<close>

definition array_get :: "'a option list \<Rightarrow> nat \<Rightarrow> 'a option" where
  "array_get xs i = (if i < length xs then xs ! i else None)"

definition array_set :: "'a option list \<Rightarrow> nat \<Rightarrow> 'a \<Rightarrow> 'a option list" where
  "array_set xs i v =
     (if i < length xs then xs[i := Some v]
      else xs @ replicate (i - length xs) None @ [Some v])"

text \<open>
  The children of a DOM element, as the DOM standard defines \<^verbatim>\<open>appendChild\<close> and
  \<^verbatim>\<open>removeChild\<close>: appending a node that is already a child moves it to the end;
  removing \<^verbatim>\<open>null\<close> or \<^verbatim>\<open>undefined\<close> is a \<^verbatim>\<open>TypeError\<close>, removing a node that is
  not a child is a \<^verbatim>\<open>NotFoundError\<close>.
\<close>

definition appendChild :: "node list \<Rightarrow> node \<Rightarrow> node list" where
  "appendChild children n = filter (\<lambda>m. m \<noteq> n) children @ [n]"

definition removeChild :: "node list \<Rightarrow> node option \<Rightarrow> error + node list" where
  "removeChild children child =
     (case child of
        None \<Rightarrow> Inl TypeError
      | Some n \<Rightarrow>
          (if n \<in> set children then Inr (filter (\<lambda>m. m \<noteq> n) children)
           else Inl NotFoundError))"

subsection \<open>The render debouncer\<close>

text \<open>
  Modelled from the spec: the state of the class \<^verbatim>\<open>RenderDebouncer\<close> of
  \<^verbatim>\<open>utils/RenderDebouncer.ts\<close>, which the source imports and which is not among the
  source files. Section 4.2 of the specification: the debouncer keeps the range of rows
  requested since the last flush, if any. \<open>scheduledFlushes\<close> counts the deferred
  flushes scheduled and not yet run.
\<close>

record debouncer =
  pendingRange :: "(nat \<times> nat) option"
  scheduledFlushes :: nat

text \<open>
  Modelled from the spec: the debouncer that the constructor of \<^verbatim>\<open>RenderDebouncer\<close>
  returns. Section 4.2: nothing is pending before the first request.
\<close>

definition new_RenderDebouncer :: debouncer where
  "new_RenderDebouncer = \<lparr>pendingRange = None, scheduledFlushes = 0\<rparr>"

text \<open>
  Modelled from the spec: \<^verbatim>\<open>refresh(start?, end?)\<close> of \<^verbatim>\<open>RenderDebouncer\<close>.
  Section 4.2: an omitted start is row 0 and an omitted end the last row of the
  viewport; the first request schedules the flush, a later one widens the pending range
  to the union.
\<close>

definition refresh :: "nat \<Rightarrow> debouncer \<Rightarrow> nat option \<Rightarrow> nat option \<Rightarrow> debouncer" where
  "refresh rows d rowStart rowEnd =
     (let a = (case rowStart of None \<Rightarrow> 0 | Some i \<Rightarrow> i);
          b = (case rowEnd of None \<Rightarrow> rows - 1 | Some i \<Rightarrow> i)
      in case pendingRange d of
           None \<Rightarrow> \<lparr>pendingRange = Some (a, b), scheduledFlushes = scheduledFlushes d + 1\<rparr>
         | Some (lo, hi) \<Rightarrow> d\<lparr>pendingRange := Some (min lo a, max hi b)\<rparr>)"

text \<open>
  Modelled from the spec: the deferred flush of the same class. Section 4.2: on flush the
  callback is invoked once with the merged range and the pending state is cleared. The
  result is the range the callback is invoked with, if any, and the debouncer afterwards.
\<close>

definition flush :: "debouncer \<Rightarrow> (nat \<times> nat) option \<times> debouncer" where
  "flush d =
     (pendingRange d, \<lparr>pendingRange = None, scheduledFlushes = scheduledFlushes d - 1\<rparr>)"

text \<open>A sequence of \<^verbatim>\<open>refresh(start, end)\<close> calls with both arguments given.\<close>

fun refreshes :: "nat \<Rightarrow> debouncer \<Rightarrow> (nat \<times> nat) list \<Rightarrow> debouncer" where
  "refreshes rows d [] = d"
| "refreshes rows d ((a, b) # rs) = refreshes rows (refresh rows d (Some a) (Some b)) rs"

subsection \<open>The mirrored rows\<close>

text \<open>
  The attributes of a DOM element that the manager writes: \<^verbatim>\<open>role\<close>,
  \<^verbatim>\<open>textContent\<close>, \<^verbatim>\<open>aria-label\<close> and \<^verbatim>\<open>style.height\<close> (in pixels).
\<close>

record element =
  role :: "string option"
  text_of :: string
  ariaLabel :: "string option"
  styleHeight :: "nat option"

definition blank :: element where
  "blank = \<lparr>role = None, text_of = [], ariaLabel = None, styleHeight = None\<rparr>"

text \<open>
  The fields of \<^verbatim>\<open>AccessibilityManager\<close> that the row methods use, with what they
  read of the terminal: \<^verbatim>\<open>this._terminal.rows\<close>, \<^verbatim>\<open>buffer.ydisp\<close> and
  \<^verbatim>\<open>renderer.dimensions.actualCellHeight\<close>. \<open>created\<close> is the number of elements
  that \<^verbatim>\<open>document.createElement\<close> has returned, so that it is also the identity of
  the next one; \<open>elements\<close> is the store of their attributes. Row counts are natural
  numbers.
\<close>

record mirror =
  terminal_rows :: nat
  buffer_ydisp :: nat
  actualCellHeight :: nat
  created :: nat
  elements :: "node \<Rightarrow> element"
  rowContainer_children :: "node list"
  rowElements :: "node option list"
  renderRowsDebouncer :: debouncer

text \<open>
  \<^verbatim>\<open>_createAccessibilityTreeNode()\<close>, lines 115 to 119: a new \<^verbatim>\<open>div\<close> with the role
  \<^verbatim>\<open>menuitem\<close>.
\<close>

definition createAccessibilityTreeNode :: "mirror \<Rightarrow> node \<times> mirror" where
  "createAccessibilityTreeNode s =
     (created s,
      s\<lparr>created := Suc (created s),
        elements := (elements s)(created s := blank\<lparr>role := Some ''menuitem''\<rparr>)\<rparr>)"

text \<open>
  The body of the loops of lines 42 to 45 and 103 to 106:
  \<^verbatim>\<open>this._rowElements[i] = this._createAccessibilityTreeNode();
  this._rowContainer.appendChild(this._rowElements[i]);\<close>
\<close>

definition addRow :: "nat \<Rightarrow> mirror \<Rightarrow> mirror" where
  "addRow i s =
     (case createAccessibilityTreeNode s of
        (n, s') \<Rightarrow>
          s'\<lparr>rowElements := array_set (rowElements s') i n,
             rowContainer_children := appendChild (rowContainer_children s') n\<rparr>)"

text \<open>
  \<^verbatim>\<open>_refreshRowsDimensions()\<close>, lines 197 to 203. Writing the style of
  \<^verbatim>\<open>this._rowElements[i]\<close> when that is \<^verbatim>\<open>undefined\<close> throws.
\<close>

definition setRowHeight :: "mirror \<Rightarrow> nat \<Rightarrow> error + mirror" where
  "setRowHeight s i =
     (case array_get (rowElements s) i of
        None \<Rightarrow> Inl TypeError
      | Some n \<Rightarrow>
          Inr (s\<lparr>elements :=
                 (elements s)(n := (elements s n)\<lparr>styleHeight := Some (actualCellHeight s)\<rparr>)\<rparr>))"

fun forRows :: "(mirror \<Rightarrow> nat \<Rightarrow> error + mirror) \<Rightarrow> nat list \<Rightarrow> mirror \<Rightarrow> error + mirror" where
  "forRows body [] s = Inr s"
| "forRows body (i # is) s =
     (case body s i of Inl e \<Rightarrow> Inl e | Inr s' \<Rightarrow> forRows body is s')"

definition refreshRowsDimensions :: "mirror \<Rightarrow> error + mirror" where
  "refreshRowsDimensions s = forRows setRowHeight [0..<terminal_rows s] s"

text \<open>
  The loop of lines 108 to 110:
  \<^verbatim>\<open>while (this._rowElements.length > rows) {
    this._rowContainer.removeChild(this._rowElements.pop()); }\<close>
\<close>

function shrinkRows :: "mirror \<Rightarrow> nat \<Rightarrow> error + mirror" where
  "shrinkRows s rows =
     (if length (rowElements s) > rows then
        (case removeChild (rowContainer_children s) (last (rowElements s)) of
           Inl e \<Rightarrow> Inl e
         | Inr children \<Rightarrow>
             shrinkRows (s\<lparr>rowElements := butlast (rowElements s),
                           rowContainer_children := children\<rparr>) rows)
      else Inr s)"
  by pat_completeness auto
termination
  by (relation "measure (\<lambda>(s, rows). length (rowElements s))") auto

text \<open>
  \<^verbatim>\<open>_onResize(cols, rows)\<close>, lines 101 to 113. The first loop starts at the number of
  children of the row container and runs up to \<^verbatim>\<open>this._terminal.rows\<close>; the second
  compares the length of the array with the argument \<^verbatim>\<open>rows\<close>.
\<close>

definition onResize :: "mirror \<Rightarrow> nat \<Rightarrow> nat \<Rightarrow> error + mirror" where
  "onResize s cols rows =
     (let s1 = fold addRow [length (rowContainer_children s)..<terminal_rows s] s
      in case shrinkRows s1 rows of
           Inl e \<Rightarrow> Inl e
         | Inr s2 \<Rightarrow> refreshRowsDimensions s2)"

text \<open>
  Modelled from the spec: the \<^verbatim>\<open>resize\<close> event of the terminal, whose class is not
  among the source files. Section 6: the event carries \<^verbatim>\<open>{cols, rows}\<close>, and the
  row count is the terminal's current one (section 3). The listener of line 63 passes
  both to \<^verbatim>\<open>_onResize\<close>.
\<close>

definition resize_event :: "mirror \<Rightarrow> nat \<Rightarrow> nat \<Rightarrow> error + mirror" where
  "resize_event s cols rows = onResize (s\<lparr>terminal_rows := rows\<rparr>) cols rows"

fun resize_events :: "mirror \<Rightarrow> (nat \<times> nat) list \<Rightarrow> error + mirror" where
  "resize_events s [] = Inr s"
| "resize_events s ((cols, rows) # evs) =
     (case resize_event s cols rows of Inl e \<Rightarrow> Inl e | Inr s' \<Rightarrow> resize_events s' evs)"

text \<open>\<^verbatim>\<open>_refreshRows(start?, end?)\<close>, lines 184 to 186.\<close>

definition refreshRows :: "mirror \<Rightarrow> nat option \<Rightarrow> nat option \<Rightarrow> mirror" where
  "refreshRows s start end' =
     s\<lparr>renderRowsDebouncer := refresh (terminal_rows s) (renderRowsDebouncer s) start end'\<rparr>"

text \<open>A sequence of \<^verbatim>\<open>refresh\<close> events of the terminal, each with its range (line 64).\<close>

fun refreshRowsAll :: "mirror \<Rightarrow> (nat \<times> nat) list \<Rightarrow> mirror" where
  "refreshRowsAll s [] = s"
| "refreshRowsAll s ((a, b) # rs) = refreshRowsAll (refreshRows s (Some a) (Some b)) rs"

text \<open>
  \<^verbatim>\<open>_renderRows(start, end)\<close>, lines 188 to 195. \<open>translate\<close> is
  \<^verbatim>\<open>buffer.translateBufferLineToString(line, true)\<close> of the terminal.
\<close>

definition renderRow :: "(nat \<Rightarrow> string) \<Rightarrow> mirror \<Rightarrow> nat \<Rightarrow> error + mirror" where
  "renderRow translate s i =
     (let lineData = translate (buffer_ydisp s + i)
      in case array_get (rowElements s) i of
           None \<Rightarrow> Inl TypeError
         | Some n \<Rightarrow>
             Inr (s\<lparr>elements :=
                    (elements s)(n := (elements s n)\<lparr>text_of := lineData,
                                                     ariaLabel := Some lineData\<rparr>)\<rparr>))"

definition renderRows :: "(nat \<Rightarrow> string) \<Rightarrow> mirror \<Rightarrow> nat \<Rightarrow> nat \<Rightarrow> error + mirror" where
  "renderRows translate s start end' = forRows (renderRow translate) [start..<Suc end'] s"

text \<open>
  The deferred flush of the debouncer, with the callback that line 49 gives it:
  \<^verbatim>\<open>new RenderDebouncer(this._terminal, this._renderRows.bind(this))\<close>.
\<close>

definition flushRows :: "(nat \<Rightarrow> string) \<Rightarrow> mirror \<Rightarrow> error + mirror" where
  "flushRows translate s =
     (case flush (renderRowsDebouncer s) of
        (None, d) \<Rightarrow> Inr (s\<lparr>renderRowsDebouncer := d\<rparr>)
      | (Some (start, end'), d) \<Rightarrow>
          (case renderRows translate s start end' of
             Inl e \<Rightarrow> Inl e
           | Inr s' \<Rightarrow> Inr (s'\<lparr>renderRowsDebouncer := d\<rparr>)))"

text \<open>
  The constructor, lines 37 to 57, for these fields: the root is element 0 and the row
  container element 1, then one element per row of the terminal, the heights, the first
  refresh request, and the element of the live region.
\<close>

definition new_AccessibilityManager :: "nat \<Rightarrow> nat \<Rightarrow> nat \<Rightarrow> error + mirror" where
  "new_AccessibilityManager rows ydisp cellHeight =
     (let s0 = \<lparr>terminal_rows = rows, buffer_ydisp = ydisp, actualCellHeight = cellHeight,
                created = 2, elements = (\<lambda>n. blank), rowContainer_children = [],
                rowElements = [], renderRowsDebouncer = new_RenderDebouncer\<rparr>;
          s1 = fold addRow [0..<terminal_rows s0] s0
      in case refreshRowsDimensions s1 of
           Inl e \<Rightarrow> Inl e
         | Inr s2 \<Rightarrow>
             (let s3 = refreshRows s2 None None
              in Inr (s3\<lparr>created := Suc (created s3)\<rparr>)))"

subsection \<open>The navigation mode\<close>

text \<open>
  The fields of \<^verbatim>\<open>NavigationMode\<close> and what its methods reach through them.
  \<^item> \<open>navigationModeFocusedRow\<close> is a JavaScript number: \<open>None\<close> stands for
    \<^verbatim>\<open>undefined\<close>, its value before the first navigation, and for \<^verbatim>\<open>NaN\<close>, which
    \<^verbatim>\<open>undefined - 1\<close> and \<^verbatim>\<open>undefined + 1\<close> are.
  \<^item> \<open>nav_rowElements\<close> is the array that the constructor receives from the manager
    (line 52): the same array object as \<^verbatim>\<open>AccessibilityManager._rowElements\<close>.
  \<^item> \<open>nav_children\<close> are the children of the row container, in document order.
  \<^item> \<open>activeItems\<close> are the elements whose \<^verbatim>\<open>id\<close> attribute is \<^verbatim>\<open>_activeItemId\<close>.
  \<^item> \<open>menuAttributes\<close> tells whether the row container carries \<^verbatim>\<open>tabindex\<close>,
    \<^verbatim>\<open>role\<close> and \<^verbatim>\<open>aria-activedescendant\<close>, which \<^verbatim>\<open>enter\<close> sets together and
    \<^verbatim>\<open>leave\<close> removes together.
  \<^item> \<open>inputFocus\<close> is the element that last received \<^verbatim>\<open>focus()\<close>.
  \<^item> \<open>nav_ydisp\<close> and \<open>nav_y\<close> are \<^verbatim>\<open>buffer.ydisp\<close> and \<^verbatim>\<open>buffer.y\<close> of the
    terminal; \<open>scrollLines_calls\<close> and \<open>announcements\<close> list the calls of
    \<^verbatim>\<open>this._terminal.scrollLines\<close> and \<^verbatim>\<open>this._accessibilityManager.announce\<close>.
\<close>

datatype focus = RowContainer | TextArea

record navigation =
  isNavigationModeActive :: bool
  navigationModeFocusedRow :: "int option"
  nav_rowElements :: "node option list"
  nav_children :: "node list"
  activeItems :: "node list"
  menuAttributes :: bool
  inputFocus :: "focus option"
  nav_ydisp :: nat
  nav_y :: nat
  scrollLines_calls :: "int list"
  announcements :: "string list"

definition new_NavigationMode :: "node option list \<Rightarrow> node list \<Rightarrow> nat \<Rightarrow> nat \<Rightarrow> navigation" where
  "new_NavigationMode rows children ydisp y =
     \<lparr>isNavigationModeActive = False, navigationModeFocusedRow = None,
      nav_rowElements = rows, nav_children = children, activeItems = [],
      menuAttributes = False, inputFocus = None, nav_ydisp = ydisp, nav_y = y,
      scrollLines_calls = [], announcements = []\<rparr>"

text \<open>
  Modelled from the spec: \<^verbatim>\<open>scrollLines\<close> of the terminal, whose class is not among
  the source files. Section 4.4: the terminal is requested to scroll by the given number
  of lines; the viewport offset does not go below 0.
\<close>

definition scrollLines :: "navigation \<Rightarrow> int \<Rightarrow> navigation" where
  "scrollLines s disp =
     s\<lparr>scrollLines_calls := scrollLines_calls s @ [disp],
       nav_ydisp := nat (max 0 (int (nav_ydisp s) + disp))\<rparr>"

text \<open>
  \<^verbatim>\<open>document.querySelector('#' + this._activeItemId)\<close>: the first element of the
  document, here among the rows, that has the identifier. Then lines 328 to 331.
\<close>

definition querySelector :: "navigation \<Rightarrow> node option" where
  "querySelector s = find (\<lambda>n. n \<in> set (activeItems s)) (nav_children s)"

definition removeSelectedId :: "navigation \<Rightarrow> navigation" where
  "removeSelectedId s =
     (case querySelector s of
        Some selected \<Rightarrow> s\<lparr>activeItems := filter (\<lambda>n. n \<noteq> selected) (activeItems s)\<rparr>
      | None \<Rightarrow> s)"

text \<open>\<^verbatim>\<open>this._rowElements[row]\<close> for a number \<open>row\<close>.\<close>

definition rowElement :: "navigation \<Rightarrow> int option \<Rightarrow> node option" where
  "rowElement s row =
     (case row of
        None \<Rightarrow> None
      | Some r \<Rightarrow> (if r < 0 then None else array_get (nav_rowElements s) (nat r)))"

text \<open>
  \<^verbatim>\<open>_navigateToElement(row)\<close>, lines 317 to 335. The result is paired with the state,
  since what the method has written stays written when it throws. The assignment
  \<^verbatim>\<open>row = 0\<close> of line 321 is followed by the \<^verbatim>\<open>return\<close> of line 324.
\<close>

definition navigateToElement :: "navigation \<Rightarrow> int option \<Rightarrow> (error + unit) \<times> navigation" where
  "navigateToElement s row =
     (if (case row of None \<Rightarrow> False | Some r \<Rightarrow> r < 0) \<and> nav_ydisp s > 0
      then (Inr (), scrollLines s (- 1))
      else
        (let s1 = removeSelectedId s;
             s2 = s1\<lparr>navigationModeFocusedRow := row\<rparr>
         in case rowElement s2 row of
              None \<Rightarrow> (Inl TypeError, s2)
            | Some selectedElement \<Rightarrow>
                (Inr (), s2\<lparr>activeItems := selectedElement # activeItems s2\<rparr>)))"

text \<open>\<^verbatim>\<open>enter()\<close>, lines 245 to 253, and \<^verbatim>\<open>leave()\<close>, lines 255 to 266.\<close>

definition enter :: "navigation \<Rightarrow> (error + unit) \<times> navigation" where
  "enter s =
     navigateToElement
       (s\<lparr>isNavigationModeActive := True,
          announcements := announcements s @ [''Entered line navigation mode''],
          menuAttributes := True,
          inputFocus := Some RowContainer\<rparr>)
       (Some (int (nav_y s)))"

definition leave :: "navigation \<Rightarrow> navigation" where
  "leave s =
     (removeSelectedId
        (s\<lparr>isNavigationModeActive := False,
           announcements := announcements s @ [''Left line navigation mode''],
           menuAttributes := False\<rparr>))\<lparr>inputFocus := Some TextArea\<rparr>"

text \<open>
  \<^verbatim>\<open>_onEscape\<close>, \<^verbatim>\<open>_onArrowUp\<close> and \<^verbatim>\<open>_onArrowDown\<close>, lines 299 to 315. The
  result \<open>Inr True\<close> reports the event as handled.
\<close>

definition onEscape :: "navigation \<Rightarrow> (error + bool) \<times> navigation" where
  "onEscape s = (Inr True, leave s)"

definition onArrowUp :: "navigation \<Rightarrow> (error + bool) \<times> navigation" where
  "onArrowUp s =
     (case navigateToElement s (map_option (\<lambda>r. r - 1) (navigationModeFocusedRow s)) of
        (Inl e, s') \<Rightarrow> (Inl e, s')
      | (Inr u, s') \<Rightarrow> (Inr True, s'\<lparr>inputFocus := Some RowContainer\<rparr>))"

definition onArrowDown :: "navigation \<Rightarrow> (error + bool) \<times> navigation" where
  "onArrowDown s =
     (case navigateToElement s (map_option (\<lambda>r. r + 1) (navigationModeFocusedRow s)) of
        (Inl e, s') \<Rightarrow> (Inl e, s')
      | (Inr u, s') \<Rightarrow> (Inr True, s'\<lparr>inputFocus := Some RowContainer\<rparr>))"

text \<open>
  \<^verbatim>\<open>_onKey(e, handler)\<close>, lines 292 to 297, with \<^verbatim>\<open>onKeyUp\<close> and \<^verbatim>\<open>onKeyDown\<close>,
  lines 272 to 290. The event is given by its \<^verbatim>\<open>keyCode\<close>.
\<close>

definition NavigationMode_onKey ::
  "navigation \<Rightarrow> (navigation \<Rightarrow> (error + bool) \<times> navigation) \<Rightarrow> (error + bool) \<times> navigation" where
  "NavigationMode_onKey s handler =
     (case handler s of
        (Inl e, s') \<Rightarrow> (Inl e, s')
      | (Inr handled, s') \<Rightarrow> (if handled then (Inr True, s') else (Inr False, s')))"

definition onKeyUp :: "navigation \<Rightarrow> nat \<Rightarrow> (error + bool) \<times> navigation" where
  "onKeyUp s keyCode =
     NavigationMode_onKey s
       (\<lambda>s. if keyCode = 27 then onEscape s
            else if keyCode = 38 then onArrowUp s
            else if keyCode = 40 then onArrowDown s
            else (Inr False, s))"

definition onKeyDown :: "navigation \<Rightarrow> nat \<Rightarrow> (error + bool) \<times> navigation" where
  "onKeyDown s keyCode =
     NavigationMode_onKey s
       (\<lambda>s. if isNavigationModeActive s then (Inr True, s) else (Inr False, s))"

text \<open>The listeners of \<^verbatim>\<open>keyup\<close> and \<^verbatim>\<open>keydown\<close> on the row container, lines 226 to 237.\<close>

definition keyup :: "navigation \<Rightarrow> nat \<Rightarrow> (error + bool) \<times> navigation" where
  "keyup s keyCode = (if isNavigationModeActive s then onKeyUp s keyCode else (Inr False, s))"

definition keydown :: "navigation \<Rightarrow> nat \<Rightarrow> (error + bool) \<times> navigation" where
  "keydown s keyCode = (if isNavigationModeActive s then onKeyDown s keyCode else (Inr False, s))"

text \<open>
  A sequence of \<^verbatim>\<open>keyup\<close> events. An exception ends the handling of one event, not
  the sequence: the next event finds the state as the exception left it. The results are
  listed in order.
\<close>

fun keyups :: "navigation \<Rightarrow> nat list \<Rightarrow> (error + bool) list \<times> navigation" where
  "keyups s [] = ([], s)"
| "keyups s (k # ks) =
     (case keyup s k of
        (r, s') \<Rightarrow> (case keyups s' ks of (rs, s'') \<Rightarrow> (r # rs, s'')))"

subsection \<open>Disposal\<close>

text \<open>
  The objects pushed on \<^verbatim>\<open>_disposables\<close>, lines 61 to 79 and 226 to 237: the render
  debouncer, the navigation mode, and the listeners by the name of their event.
\<close>

datatype disposable =
  RenderRowsDebouncer
| NavigationModeObject
| TerminalListener string
| WindowListener string
| RowContainerListener string

text \<open>
  The calls that disposal makes on its collaborators: \<^verbatim>\<open>removeChild\<close> on the element
  of the terminal, with its argument, and \<^verbatim>\<open>dispose\<close> on a debouncer or a listener.
\<close>

datatype call = RemoveChild "node option" | Dispose disposable

text \<open>
  The fields that \<^verbatim>\<open>dispose\<close> reads and sets to \<^verbatim>\<open>null\<close> (\<open>None\<close>), the children
  of \<^verbatim>\<open>this._terminal.element\<close>, and the calls made so far.
\<close>

record lifecycle =
  accessibilityTreeRoot :: "node option"
  rowContainer :: "node option"
  liveRegionElement :: "node option"
  rowElementsArray :: "node option list option"
  disposables :: "disposable list option"
  navigation_disposables :: "disposable list option"
  terminal_element_children :: "node list"
  calls :: "call list"

text \<open>
  The state after the constructors, lines 37 to 80 and 218 to 238, for a terminal with the
  given number of rows: the root is element 0, the row container element 1, the rows
  follow and the live region is the last element.
\<close>

definition new_lifecycle :: "nat \<Rightarrow> lifecycle" where
  "new_lifecycle rows =
     \<lparr>accessibilityTreeRoot = Some 0,
      rowContainer = Some 1,
      liveRegionElement = Some (rows + 2),
      rowElementsArray = Some (map Some [2..<rows + 2]),
      disposables = Some
        [RenderRowsDebouncer, NavigationModeObject,
         TerminalListener ''resize'', TerminalListener ''refresh'', TerminalListener ''scroll'',
         TerminalListener ''a11y.char'', TerminalListener ''linefeed'',
         TerminalListener ''a11y.tab'', TerminalListener ''charsizechanged'',
         TerminalListener ''key'', TerminalListener ''blur'', TerminalListener ''dprchange'',
         WindowListener ''resize''],
      navigation_disposables = Some
        [RowContainerListener ''keyup'', RowContainerListener ''keydown''],
      terminal_element_children = [0],
      calls = []\<rparr>"

text \<open>
  \<^verbatim>\<open>NavigationMode.dispose()\<close>, lines 240 to 243. \<^verbatim>\<open>forEach\<close> on \<^verbatim>\<open>null\<close> throws.
\<close>

definition NavigationMode_dispose :: "lifecycle \<Rightarrow> (error + unit) \<times> lifecycle" where
  "NavigationMode_dispose s =
     (case navigation_disposables s of
        None \<Rightarrow> (Inl TypeError, s)
      | Some ds \<Rightarrow>
          (Inr (), s\<lparr>calls := calls s @ map Dispose ds, navigation_disposables := None\<rparr>))"

text \<open>
  \<^verbatim>\<open>this._disposables.forEach(d => d.dispose())\<close>, line 84: the navigation mode is
  disposed by its own method, the others are calls on collaborators.
\<close>

fun disposeEach :: "disposable list \<Rightarrow> lifecycle \<Rightarrow> (error + unit) \<times> lifecycle" where
  "disposeEach [] s = (Inr (), s)"
| "disposeEach (d # ds) s =
     (if d = NavigationModeObject then
        (case NavigationMode_dispose s of
           (Inl e, s') \<Rightarrow> (Inl e, s')
         | (Inr u, s') \<Rightarrow> disposeEach ds s')
      else disposeEach ds (s\<lparr>calls := calls s @ [Dispose d]\<rparr>))"

text \<open>\<^verbatim>\<open>AccessibilityManager.dispose()\<close>, lines 82 to 91.\<close>

definition dispose :: "lifecycle \<Rightarrow> (error + unit) \<times> lifecycle" where
  "dispose s =
     (let s1 = s\<lparr>calls := calls s @ [RemoveChild (accessibilityTreeRoot s)]\<rparr>
      in case removeChild (terminal_element_children s1) (accessibilityTreeRoot s1) of
           Inl e \<Rightarrow> (Inl e, s1)
         | Inr children \<Rightarrow>
             (let s2 = s1\<lparr>terminal_element_children := children\<rparr>
              in case disposables s2 of
                   None \<Rightarrow> (Inl TypeError, s2)
                 | Some ds \<Rightarrow>
                     (case disposeEach ds s2 of
                        (Inl e, s3) \<Rightarrow> (Inl e, s3)
                      | (Inr u, s3) \<Rightarrow>
                          (Inr (),
                           s3\<lparr>disposables := None, accessibilityTreeRoot := None,
                              rowContainer := None, liveRegionElement := None,
                              rowElementsArray := None\<rparr>))))"

section \<open>Properties\<close>

subsection \<open>The live region: what each method does to each field\<close>

lemma clear_fields [simp]:
  "liveRegion (clearLiveRegion isMac s) = []"
  "liveRegionLineCount (clearLiveRegion isMac s) = 0"
  "charsToConsume (clearLiveRegion isMac s) = charsToConsume s"
  by (simp_all add: clearLiveRegion_def Let_def)

lemma appendChar_fields [simp]:
  "liveRegion (appendChar s c) = liveRegion s @ [if c = space then Nbsp else Literal c]"
  "liveRegionLineCount (appendChar s c) = liveRegionLineCount s"
  "charsToConsume (appendChar s c) = charsToConsume s"
  by (simp_all add: appendChar_def)

lemma scheduleReattach_fields [simp]:
  "liveRegion (scheduleReattach isMac s) = liveRegion s"
  "liveRegionLineCount (scheduleReattach isMac s) = liveRegionLineCount s"
  "charsToConsume (scheduleReattach isMac s) = charsToConsume s"
  by (simp_all add: scheduleReattach_def)

lemma countLine_fields [simp]:
  "liveRegion (countLine s c) =
     liveRegion s @ (if c = linefeed \<and> liveRegionLineCount s = MAX_ROWS_TO_READ then [TooMuchOutput] else [])"
  "liveRegionLineCount (countLine s c) = (if c = linefeed then liveRegionLineCount s + 1 else liveRegionLineCount s)"
  "charsToConsume (countLine s c) = charsToConsume s"
  by (simp_all add: countLine_def Let_def)

lemma consumeOrAppend_fields [simp]:
  "liveRegion (consumeOrAppend s c) =
     liveRegion s @ (if charsToConsume s \<noteq> [] \<and> hd (charsToConsume s) = c then []
                     else [if c = space then Nbsp else Literal c])"
  "liveRegionLineCount (consumeOrAppend s c) = liveRegionLineCount s"
  "charsToConsume (consumeOrAppend s c) = tl (charsToConsume s)"
  by (simp_all add: consumeOrAppend_def split: list.splits)

lemma onChar_liveRegion:
  "liveRegion (onChar isMac s c) =
     (if liveRegionLineCount s < MAX_ROWS_TO_READ + 1 then
        liveRegion s
        @ (if charsToConsume s \<noteq> [] \<and> hd (charsToConsume s) = c then []
           else [if c = space then Nbsp else Literal c])
        @ (if c = linefeed \<and> liveRegionLineCount s = MAX_ROWS_TO_READ then [TooMuchOutput] else [])
      else liveRegion s)"
  by (simp add: onChar_def)

lemma onChar_lineCount:
  "liveRegionLineCount (onChar isMac s c) =
     (if liveRegionLineCount s < MAX_ROWS_TO_READ + 1 \<and> c = linefeed
      then liveRegionLineCount s + 1 else liveRegionLineCount s)"
  by (simp add: onChar_def)

lemma onChar_charsToConsume:
  "charsToConsume (onChar isMac s c) =
     (if liveRegionLineCount s < MAX_ROWS_TO_READ + 1 then tl (charsToConsume s) else charsToConsume s)"
  by (simp add: onChar_def)

lemma onChar_overflowed: "MAX_ROWS_TO_READ < liveRegionLineCount s \<Longrightarrow> onChar isMac s c = s"
  by (simp add: onChar_def)

lemma onChars_overflowed: "MAX_ROWS_TO_READ < liveRegionLineCount s \<Longrightarrow> onChars isMac s cs = s"
  by (induction cs) (simp_all add: onChar_overflowed)

lemma onChars_append: "onChars isMac u (xs @ ys) = onChars isMac (onChars isMac u xs) ys"
  by (induction xs arbitrary: u) simp_all

lemma onKey_fields [simp]:
  "liveRegion (onKey isMac s k) = []"
  "liveRegionLineCount (onKey isMac s k) = 0"
  "charsToConsume (onKey isMac s k) = charsToConsume s @ [k]"
  by (simp_all add: onKey_def Let_def)

lemma onKeys_charsToConsume: "charsToConsume (onKeys isMac s ks) = charsToConsume s @ ks"
  by (induction ks arbitrary: s) simp_all

lemma onKeys_cleared:
  "liveRegion (onKeys isMac (onKey isMac s k) ks) = []
   \<and> liveRegionLineCount (onKeys isMac (onKey isMac s k) ks) = 0"
  by (induction ks arbitrary: s k) simp_all

subsection \<open>The overflow notice\<close>

lemma onChar_notice_inv:
  assumes "liveRegionLineCount s \<le> MAX_ROWS_TO_READ + 1"
    and "count_list (liveRegion s) TooMuchOutput = (if MAX_ROWS_TO_READ < liveRegionLineCount s then 1 else 0)"
  shows "liveRegionLineCount (onChar isMac s c) \<le> MAX_ROWS_TO_READ + 1
     \<and> count_list (liveRegion (onChar isMac s c)) TooMuchOutput
         = (if MAX_ROWS_TO_READ < liveRegionLineCount (onChar isMac s c) then 1 else 0)"
  using assms by (auto simp add: onChar_liveRegion onChar_lineCount)

lemma onChars_notice_inv:
  "liveRegionLineCount s \<le> MAX_ROWS_TO_READ + 1 \<Longrightarrow>
   count_list (liveRegion s) TooMuchOutput = (if MAX_ROWS_TO_READ < liveRegionLineCount s then 1 else 0) \<Longrightarrow>
   liveRegionLineCount (onChars isMac s cs) \<le> MAX_ROWS_TO_READ + 1
     \<and> count_list (liveRegion (onChars isMac s cs)) TooMuchOutput
         = (if MAX_ROWS_TO_READ < liveRegionLineCount (onChars isMac s cs) then 1 else 0)"
proof (induction cs arbitrary: s)
  case Nil
  then show ?case by simp
next
  case (Cons c cs)
  from onChar_notice_inv [OF Cons.prems, where isMac = isMac and c = c]
  show ?case using Cons.IH [of "onChar isMac s c"] by simp
qed

lemma onChars_linefeeds:
  "liveRegionLineCount s \<le> MAX_ROWS_TO_READ + 1 \<Longrightarrow>
   liveRegionLineCount (onChars isMac s (replicate n linefeed))
     = min (liveRegionLineCount s + n) (MAX_ROWS_TO_READ + 1)"
proof (induction n arbitrary: s)
  case 0
  then show ?case by simp
next
  case (Suc n)
  have "liveRegionLineCount (onChar isMac s linefeed) \<le> MAX_ROWS_TO_READ + 1"
    using Suc.prems by (simp add: onChar_lineCount)
  from Suc.IH [OF this] show ?case
    using Suc.prems by (auto simp add: onChar_lineCount min_def)
qed

text \<open>
  Claim C4. Take any sequence of \<^verbatim>\<open>_onChar\<close> calls after a clear, from any state. The
  line counter is at most 21, and the notice has been appended exactly once when the
  counter exceeds 20 and not at all otherwise. Once the counter exceeds 20 every further
  \<^verbatim>\<open>_onChar\<close> call leaves the whole state as it is, so nothing is appended; a clear
  sets the counter back to 0. Feeding 21 line feeds after a clear brings the counter to 21.
\<close>

theorem C4_overflow_notice_once:
  "(let t = onChars isMac (clearLiveRegion isMac s) cs in
      liveRegionLineCount t \<le> MAX_ROWS_TO_READ + 1
    \<and> count_list (liveRegion t) TooMuchOutput
        = (if MAX_ROWS_TO_READ < liveRegionLineCount t then 1 else 0)
    \<and> (MAX_ROWS_TO_READ < liveRegionLineCount t \<longrightarrow> onChars isMac t ds = t)
    \<and> liveRegionLineCount (clearLiveRegion isMac t) = 0)
   \<and> liveRegionLineCount (onChars isMac (clearLiveRegion isMac s) (replicate (MAX_ROWS_TO_READ + 1) linefeed))
       = MAX_ROWS_TO_READ + 1"
proof -
  have a: "liveRegionLineCount (clearLiveRegion isMac s) \<le> MAX_ROWS_TO_READ + 1" by simp
  have b: "count_list (liveRegion (clearLiveRegion isMac s)) TooMuchOutput
     = (if MAX_ROWS_TO_READ < liveRegionLineCount (clearLiveRegion isMac s) then 1 else 0)" by simp
  from onChars_notice_inv [OF a b, where cs = cs] onChars_linefeeds [OF a, where n = "MAX_ROWS_TO_READ + 1"]
  show ?thesis by (simp add: Let_def onChars_overflowed)
qed

text \<open>
  The theorem at the new manager, not on a Mac, with 21 line feeds and then two more
  characters.
\<close>

theorem C4_overflow_notice_once_witness:
  "(let t = onChars False (clearLiveRegion False new_announcer) (replicate 21 linefeed) in
      MAX_ROWS_TO_READ < liveRegionLineCount t
    \<and> liveRegion t = replicate 21 (Literal linefeed) @ [TooMuchOutput]
    \<and> onChars False t [''x'', linefeed] = t)"
  using C4_overflow_notice_once [of False new_announcer "replicate 21 linefeed" "[''x'', linefeed]"]
  apply (simp add: Let_def)
  apply (simp add: MAX_ROWS_TO_READ_def new_announcer_def clearLiveRegion_def onChar_def consumeOrAppend_def appendChar_def countLine_def scheduleReattach_def linefeed_def space_def Let_def eval_nat_numeral)
  done

subsection \<open>Echo suppression\<close>

text \<open>
  Claim C5, as amended. From a state whose queue of pressed keys is empty,
  \<^verbatim>\<open>_onKey(c)\<close> followed by \<^verbatim>\<open>_onChar(c)\<close> leaves the live region as
  \<^verbatim>\<open>_onKey\<close> left it and consumes the key, and \<^verbatim>\<open>_onKey(c)\<close> followed by
  \<^verbatim>\<open>_onChar(d)\<close> with \<open>d \<noteq> c\<close> appends \<open>d\<close>, as \<^verbatim>\<open>&nbsp;\<close> when \<open>d\<close>
  is a space. Every \<^verbatim>\<open>_onChar\<close> removes at most one key from the queue: the oldest,
  when the line counter is below 21, and none otherwise. With an empty queue and the line
  counter below 21 the character is appended, followed by the notice when it is the
  twenty-first line feed.
\<close>

theorem C5_echo_suppression:
  "(charsToConsume s = [] \<longrightarrow>
      liveRegion (onChar isMac (onKey isMac s c) c) = liveRegion (onKey isMac s c)
    \<and> charsToConsume (onChar isMac (onKey isMac s c) c) = []
    \<and> (d \<noteq> c \<longrightarrow>
         liveRegion (onChar isMac (onKey isMac s c) d)
           = liveRegion (onKey isMac s c) @ [if d = space then Nbsp else Literal d]))
   \<and> charsToConsume (onChar isMac s c)
       = drop (if liveRegionLineCount s < MAX_ROWS_TO_READ + 1 then 1 else 0) (charsToConsume s)
   \<and> (charsToConsume s = [] \<and> liveRegionLineCount s < MAX_ROWS_TO_READ + 1 \<longrightarrow>
        liveRegion (onChar isMac s c)
          = liveRegion s @ [if c = space then Nbsp else Literal c]
            @ (if c = linefeed \<and> liveRegionLineCount s = MAX_ROWS_TO_READ
               then [TooMuchOutput] else []))"
  by (simp add: onChar_liveRegion onChar_charsToConsume drop_Suc MAX_ROWS_TO_READ_def)

text \<open>
  The theorem at the new manager with the keys \<^verbatim>\<open>a\<close> and \<^verbatim>\<open>b\<close>.
\<close>

theorem C5_echo_suppression_witness:
  "charsToConsume new_announcer = []
   \<and> liveRegionLineCount new_announcer < MAX_ROWS_TO_READ + 1
   \<and> ''b'' \<noteq> ''a''
   \<and> liveRegion (onChar False (onKey False new_announcer ''a'') ''a'') = []
   \<and> liveRegion (onChar False (onKey False new_announcer ''a'') ''b'') = [Literal ''b'']
   \<and> liveRegion (onChar False new_announcer ''a'') = [Literal ''a'']"
  using C5_echo_suppression [of new_announcer False "''a''" "''b''"]
  by (simp add: new_announcer_def space_def linefeed_def MAX_ROWS_TO_READ_def)

text \<open>
  Claim C5 as stated fails in two states. With the key \<^verbatim>\<open>x\<close> still pending,
  \<^verbatim>\<open>_onKey('a')\<close> followed by \<^verbatim>\<open>_onChar('a')\<close> compares \<^verbatim>\<open>a\<close> with
  \<^verbatim>\<open>x\<close> and appends it. After 21 line feeds the queue is empty and \<^verbatim>\<open>_onChar('a')\<close>
  appends nothing.
\<close>

theorem C5_echo_depends_on_queue:
  "liveRegion (onChar False (onKey False (onKey False new_announcer ''x'') ''a'') ''a'')
     \<noteq> liveRegion (onKey False (onKey False new_announcer ''x'') ''a'')
   \<and> charsToConsume (onChars False new_announcer (replicate 21 linefeed)) = []
   \<and> liveRegion (onChar False (onChars False new_announcer (replicate 21 linefeed)) ''a'')
       = liveRegion (onChars False new_announcer (replicate 21 linefeed))"
proof -
  have "MAX_ROWS_TO_READ < liveRegionLineCount (onChars False new_announcer (replicate 21 linefeed))"
    using onChars_linefeeds [of new_announcer False 21]
    by (simp add: new_announcer_def MAX_ROWS_TO_READ_def)
  then have a: "onChar False (onChars False new_announcer (replicate 21 linefeed)) ''a''
       = onChars False new_announcer (replicate 21 linefeed)"
    by (rule onChar_overflowed)
  have b: "charsToConsume (onChars False s cs) = [] " if "charsToConsume s = []" for s cs
    using that by (induction cs arbitrary: s) (simp_all add: onChar_charsToConsume)
  have c: "charsToConsume new_announcer = []" by (simp add: new_announcer_def)
  show ?thesis
    using a b [OF c] c by (simp add: onChar_liveRegion MAX_ROWS_TO_READ_def space_def)
qed

subsection \<open>The encoding of the space\<close>

text \<open>
  Claim C9, as amended. While the line counter is below 21, \<^verbatim>\<open>_onChar(' ')\<close> with an
  empty queue, or with a first pending key other than the space, appends
  \<^verbatim>\<open>&nbsp;\<close>; in no state does it append a literal space. A character other than the
  space that is appended is appended as literal text, and never adds \<^verbatim>\<open>&nbsp;\<close>. When
  the line counter has reached 21 nothing is appended.
\<close>

theorem C9_space_encoding:
  "(liveRegionLineCount s < MAX_ROWS_TO_READ + 1
      \<and> (charsToConsume s = [] \<or> hd (charsToConsume s) \<noteq> space) \<longrightarrow>
        liveRegion (onChar isMac s space) = liveRegion s @ [Nbsp])
   \<and> liveRegion (onChar isMac s space) \<noteq> liveRegion s @ [Literal space]
   \<and> (c \<noteq> space \<and> liveRegionLineCount s < MAX_ROWS_TO_READ + 1
      \<and> (charsToConsume s = [] \<or> hd (charsToConsume s) \<noteq> c) \<longrightarrow>
        liveRegion (onChar isMac s c)
          = liveRegion s @ [Literal c]
            @ (if c = linefeed \<and> liveRegionLineCount s = MAX_ROWS_TO_READ
               then [TooMuchOutput] else []))
   \<and> (c \<noteq> space \<longrightarrow> Nbsp \<notin> set (liveRegion (onChar isMac s c)) - set (liveRegion s))
   \<and> (\<not> liveRegionLineCount s < MAX_ROWS_TO_READ + 1 \<longrightarrow>
        liveRegion (onChar isMac s c) = liveRegion s)"
  by (auto simp add: onChar_liveRegion space_def linefeed_def)

text \<open>
  The theorem at the new manager, and at the manager after 21 line feeds.
\<close>

theorem C9_space_encoding_witness:
  "liveRegionLineCount new_announcer < MAX_ROWS_TO_READ + 1
   \<and> charsToConsume new_announcer = []
   \<and> ''a'' \<noteq> space
   \<and> liveRegion (onChar False new_announcer space) = [Nbsp]
   \<and> liveRegion (onChar False new_announcer ''a'') = [Literal ''a'']
   \<and> \<not> liveRegionLineCount (onChars False new_announcer (replicate 21 linefeed)) < MAX_ROWS_TO_READ + 1
   \<and> liveRegion (onChar False (onChars False new_announcer (replicate 21 linefeed)) space)
       = liveRegion (onChars False new_announcer (replicate 21 linefeed))"
  using C9_space_encoding [of new_announcer False "''a''"]
    C9_space_encoding [of "onChars False new_announcer (replicate 21 linefeed)" False space]
    onChars_linefeeds [of new_announcer False 21]
  by (simp add: new_announcer_def space_def linefeed_def MAX_ROWS_TO_READ_def)

text \<open>
  Claim C9 as stated fails after 21 line feeds: the queue is empty and
  \<^verbatim>\<open>_onChar(' ')\<close> does not append \<^verbatim>\<open>&nbsp;\<close>.
\<close>

theorem C9_no_space_after_overflow:
  "charsToConsume (onChars False new_announcer (replicate 21 linefeed)) = []
   \<and> liveRegion (onChar False (onChars False new_announcer (replicate 21 linefeed)) space)
       \<noteq> liveRegion (onChars False new_announcer (replicate 21 linefeed)) @ [Nbsp]"
proof -
  have "MAX_ROWS_TO_READ < liveRegionLineCount (onChars False new_announcer (replicate 21 linefeed))"
    using onChars_linefeeds [of new_announcer False 21]
    by (simp add: new_announcer_def MAX_ROWS_TO_READ_def)
  then have a: "onChar False (onChars False new_announcer (replicate 21 linefeed)) space
       = onChars False new_announcer (replicate 21 linefeed)"
    by (rule onChar_overflowed)
  have b: "charsToConsume (onChars False s cs) = [] " if "charsToConsume s = []" for s cs
    using that by (induction cs arbitrary: s) (simp_all add: onChar_charsToConsume)
  have c: "charsToConsume new_announcer = []" by (simp add: new_announcer_def)
  show ?thesis
    using a b [OF c] by simp
qed

subsection \<open>Line feeds that echo a key\<close>

lemma echoed_linefeeds:
  "liveRegionLineCount s + n \<le> MAX_ROWS_TO_READ \<Longrightarrow>
   charsToConsume s = replicate n linefeed @ q \<Longrightarrow>
   liveRegion (onChars isMac s (replicate n linefeed)) = liveRegion s
   \<and> liveRegionLineCount (onChars isMac s (replicate n linefeed)) = liveRegionLineCount s + n
   \<and> charsToConsume (onChars isMac s (replicate n linefeed)) = q"
proof (induction n arbitrary: s)
  case 0
  then show ?case by simp
next
  case (Suc n)
  have a: "liveRegionLineCount (onChar isMac s linefeed) + n \<le> MAX_ROWS_TO_READ"
    using Suc.prems by (simp add: onChar_lineCount)
  have b: "charsToConsume (onChar isMac s linefeed) = replicate n linefeed @ q"
    using Suc.prems by (simp add: onChar_charsToConsume)
  have c: "liveRegion (onChar isMac s linefeed) = liveRegion s"
    using Suc.prems by (simp add: onChar_liveRegion)
  have d: "liveRegionLineCount (onChar isMac s linefeed) = Suc (liveRegionLineCount s)"
    using Suc.prems by (simp add: onChar_lineCount)
  from Suc.IH [OF a b] c d show ?case
    by simp
qed

lemma echoed_overflow:
  assumes "charsToConsume s0 = []"
  shows "liveRegion (onChars isMac (onKeys isMac s0 (replicate (Suc MAX_ROWS_TO_READ) linefeed))
                       (replicate (Suc MAX_ROWS_TO_READ) linefeed)) = [TooMuchOutput]
       \<and> liveRegionLineCount (onChars isMac (onKeys isMac s0 (replicate (Suc MAX_ROWS_TO_READ) linefeed))
                       (replicate (Suc MAX_ROWS_TO_READ) linefeed)) = Suc MAX_ROWS_TO_READ"
proof -
  let ?k = "onKeys isMac s0 (replicate (Suc MAX_ROWS_TO_READ) linefeed)"
  let ?m = "onChars isMac ?k (replicate MAX_ROWS_TO_READ linefeed)"
  have rep: "replicate (Suc MAX_ROWS_TO_READ) linefeed = replicate MAX_ROWS_TO_READ linefeed @ [linefeed]"
    by (simp only: replicate_append_same replicate_Suc)
  have k1: "liveRegion ?k = []" and k2: "liveRegionLineCount ?k = 0"
    using onKeys_cleared [of isMac s0 linefeed "replicate MAX_ROWS_TO_READ linefeed"]
    by (simp_all only: replicate_Suc onKeys.simps)
  have k3: "charsToConsume ?k = replicate MAX_ROWS_TO_READ linefeed @ [linefeed]"
    using assms by (simp only: onKeys_charsToConsume rep append_Nil)
  have le: "liveRegionLineCount ?k + MAX_ROWS_TO_READ \<le> MAX_ROWS_TO_READ"
    by (simp only: k2 add_0 order_refl)
  from echoed_linefeeds [OF le k3, of isMac]
  have m: "liveRegion ?m = []" "liveRegionLineCount ?m = MAX_ROWS_TO_READ" "charsToConsume ?m = [linefeed]"
    by (simp_all only: k1 k2 add_0)
  have e: "onChars isMac ?k (replicate (Suc MAX_ROWS_TO_READ) linefeed) = onChar isMac ?m linefeed"
    by (subst (2) rep) (simp only: onChars_append onChars.simps)
  show ?thesis
    unfolding e using m by (simp add: onChar_liveRegion onChar_lineCount)
qed

text \<open>
  Claim C10. When \<^verbatim>\<open>_onChar\<close> receives a line feed and removes a pending line feed
  from the queue, the line counter still goes up by one, and the live region gains
  nothing but the notice, when this is the twenty-first line. So from a state with an
  empty queue, 21 line feed keys followed by 21 line feeds of output leave the notice as
  the whole content of the live region: no line has been announced.
\<close>

theorem C10_echoed_linefeed_counts:
  "(liveRegionLineCount s < MAX_ROWS_TO_READ + 1 \<and> charsToConsume s = linefeed # q \<longrightarrow>
      liveRegionLineCount (onChar isMac s linefeed) = liveRegionLineCount s + 1
    \<and> charsToConsume (onChar isMac s linefeed) = q
    \<and> liveRegion (onChar isMac s linefeed)
        = liveRegion s @ (if liveRegionLineCount s = MAX_ROWS_TO_READ then [TooMuchOutput] else []))
   \<and> (charsToConsume s0 = [] \<longrightarrow>
        liveRegion (onChars isMac (onKeys isMac s0 (replicate (Suc MAX_ROWS_TO_READ) linefeed))
                      (replicate (Suc MAX_ROWS_TO_READ) linefeed)) = [TooMuchOutput]
      \<and> liveRegionLineCount (onChars isMac (onKeys isMac s0 (replicate (Suc MAX_ROWS_TO_READ) linefeed))
                      (replicate (Suc MAX_ROWS_TO_READ) linefeed)) = Suc MAX_ROWS_TO_READ)"
proof (intro conjI impI)
  assume "charsToConsume s0 = []"
  from echoed_overflow [OF this, of isMac]
  show "liveRegion (onChars isMac (onKeys isMac s0 (replicate (Suc MAX_ROWS_TO_READ) linefeed))
                      (replicate (Suc MAX_ROWS_TO_READ) linefeed)) = [TooMuchOutput]"
    and "liveRegionLineCount (onChars isMac (onKeys isMac s0 (replicate (Suc MAX_ROWS_TO_READ) linefeed))
                      (replicate (Suc MAX_ROWS_TO_READ) linefeed)) = Suc MAX_ROWS_TO_READ"
    by blast+
next
  assume a: "liveRegionLineCount s < MAX_ROWS_TO_READ + 1 \<and> charsToConsume s = linefeed # q"
  then show "liveRegionLineCount (onChar isMac s linefeed) = liveRegionLineCount s + 1"
    by (simp add: onChar_lineCount)
  from a show "charsToConsume (onChar isMac s linefeed) = q"
    by (simp add: onChar_charsToConsume)
  from a show "liveRegion (onChar isMac s linefeed)
        = liveRegion s @ (if liveRegionLineCount s = MAX_ROWS_TO_READ then [TooMuchOutput] else [])"
    by (simp add: onChar_liveRegion)
qed

text \<open>
  The theorem at the new manager after the key of a line feed, and the 21 echoed line
  feeds from the new manager.
\<close>

theorem C10_echoed_linefeed_counts_witness:
  "liveRegionLineCount (onKey False new_announcer linefeed) < MAX_ROWS_TO_READ + 1
   \<and> charsToConsume (onKey False new_announcer linefeed) = linefeed # []
   \<and> charsToConsume new_announcer = []
   \<and> liveRegionLineCount (onChar False (onKey False new_announcer linefeed) linefeed) = 1
   \<and> liveRegion (onChar False (onKey False new_announcer linefeed) linefeed) = []
   \<and> liveRegion (onChars False (onKeys False new_announcer (replicate (Suc MAX_ROWS_TO_READ) linefeed))
         (replicate (Suc MAX_ROWS_TO_READ) linefeed)) = [TooMuchOutput]"
proof -
  have h1: "liveRegionLineCount (onKey False new_announcer linefeed) < MAX_ROWS_TO_READ + 1
     \<and> charsToConsume (onKey False new_announcer linefeed) = linefeed # []"
    by (simp add: new_announcer_def)
  have h2: "charsToConsume new_announcer = []"
    by (simp add: new_announcer_def)
  have h3: "liveRegionLineCount (onKey False new_announcer linefeed) \<noteq> MAX_ROWS_TO_READ"
    by (simp add: MAX_ROWS_TO_READ_def)
  from C10_echoed_linefeed_counts [of "onKey False new_announcer linefeed" "[]" False new_announcer] h1 h2 h3
  show ?thesis by (simp del: replicate_Suc)
qed

subsection \<open>The mirrored rows: the loops\<close>

lemma filter_last_distinct:
  "distinct xs \<Longrightarrow> xs \<noteq> [] \<Longrightarrow> filter (\<lambda>m. m \<noteq> last xs) xs = butlast xs"
proof (induction xs rule: rev_induct)
  case Nil
  then show ?case by simp
next
  case (snoc x xs)
  then have "x \<notin> set xs" by simp
  then have "filter (\<lambda>m. m \<noteq> x) xs = xs" by (auto simp add: filter_id_conv)
  then show ?case by simp
qed

lemma addRow_fields:
  assumes "length (rowElements s) = i" and "created s \<notin> set (rowContainer_children s)"
  shows "rowElements (addRow i s) = rowElements s @ [Some (created s)]"
    and "rowContainer_children (addRow i s) = rowContainer_children s @ [created s]"
    and "created (addRow i s) = Suc (created s)"
    and "terminal_rows (addRow i s) = terminal_rows s"
    and "actualCellHeight (addRow i s) = actualCellHeight s"
    and "buffer_ydisp (addRow i s) = buffer_ydisp s"
    and "renderRowsDebouncer (addRow i s) = renderRowsDebouncer s"
  using assms
  by (auto simp add: addRow_def createAccessibilityTreeNode_def array_set_def appendChild_def
      filter_id_conv)

lemma fold_addRow:
  assumes "rowElements s = map Some (rowContainer_children s)"
    and "\<forall>n\<in>set (rowContainer_children s). n < created s"
  shows "rowElements (fold addRow [length (rowContainer_children s)..<length (rowContainer_children s) + k] s)
           = map Some (rowContainer_children s @ [created s..<created s + k])
       \<and> rowContainer_children (fold addRow [length (rowContainer_children s)..<length (rowContainer_children s) + k] s)
           = rowContainer_children s @ [created s..<created s + k]
       \<and> created (fold addRow [length (rowContainer_children s)..<length (rowContainer_children s) + k] s)
           = created s + k
       \<and> terminal_rows (fold addRow [length (rowContainer_children s)..<length (rowContainer_children s) + k] s)
           = terminal_rows s
       \<and> actualCellHeight (fold addRow [length (rowContainer_children s)..<length (rowContainer_children s) + k] s)
           = actualCellHeight s
       \<and> buffer_ydisp (fold addRow [length (rowContainer_children s)..<length (rowContainer_children s) + k] s)
           = buffer_ydisp s
       \<and> renderRowsDebouncer (fold addRow [length (rowContainer_children s)..<length (rowContainer_children s) + k] s)
           = renderRowsDebouncer s"
proof (induction k)
  case 0
  show ?case using assms(1) by simp
next
  case (Suc k)
  let ?a = "length (rowContainer_children s)"
  let ?t = "fold addRow [?a..<?a + k] s"
  have len: "length (rowElements ?t) = ?a + k"
    using Suc.IH by simp
  have fresh: "created ?t \<notin> set (rowContainer_children ?t)"
    using Suc.IH assms(2) by auto
  have step: "fold addRow [?a..<?a + Suc k] s = addRow (?a + k) ?t"
    by simp
  show ?case
    unfolding step
    using addRow_fields [OF len fresh] Suc.IH by simp
qed

lemma shrinkRows_result:
  "rowElements s = map Some (rowContainer_children s) \<Longrightarrow>
   distinct (rowContainer_children s) \<Longrightarrow>
   shrinkRows s rows
     = Inr (s\<lparr>rowElements := take rows (rowElements s),
              rowContainer_children := take rows (rowContainer_children s)\<rparr>)"
proof (induction s rows rule: shrinkRows.induct)
  case (1 s rows)
  show ?case
  proof (cases "length (rowElements s) > rows")
    case False
    then have "length (rowContainer_children s) \<le> rows"
      using "1.prems"(1) by simp
    with False show ?thesis
      using "1.prems"(1) by (subst shrinkRows.simps) simp
  next
    case True
    let ?cs = "rowContainer_children s"
    have ne: "?cs \<noteq> []" using True "1.prems"(1) by auto
    have lst: "last (rowElements s) = Some (last ?cs)"
      using ne "1.prems"(1) by (simp add: last_map)
    have rc: "removeChild ?cs (last (rowElements s)) = Inr (butlast ?cs)"
      using ne "1.prems"(2) by (simp add: lst removeChild_def filter_last_distinct)
    let ?s' = "s\<lparr>rowElements := butlast (rowElements s), rowContainer_children := butlast ?cs\<rparr>"
    have p1: "rowElements ?s' = map Some (rowContainer_children ?s')"
      using "1.prems"(1) by (simp add: map_butlast)
    have p2: "distinct (rowContainer_children ?s')"
      using "1.prems"(2) by (simp add: distinct_butlast)
    have ih: "shrinkRows ?s' rows
       = Inr (?s'\<lparr>rowElements := take rows (rowElements ?s'),
                   rowContainer_children := take rows (rowContainer_children ?s')\<rparr>)"
      using "1.IH" [OF True rc p1 p2] .
    have lt: "rows < length ?cs" using True "1.prems"(1) by simp
    have t1: "take rows (butlast (rowElements s)) = take rows (rowElements s)"
      using True by (simp add: take_butlast)
    have t2: "take rows (butlast ?cs) = take rows ?cs"
      using lt by (simp add: take_butlast)
    show ?thesis
      using True rc ih t1 t2 by (subst shrinkRows.simps) simp
  qed
qed

lemma forRows_elements:
  assumes "\<And>s i. i \<in> set is \<Longrightarrow> i < length (rowElements s) \<Longrightarrow> rowElements s ! i \<noteq> None \<Longrightarrow>
             (\<exists>el. body s i = Inr (s\<lparr>elements := el\<rparr>))"
    and "\<forall>i\<in>set is. i < length (rowElements s) \<and> rowElements s ! i \<noteq> None"
  shows "\<exists>el. forRows body is s = Inr (s\<lparr>elements := el\<rparr>)"
  using assms
proof (induction "is" arbitrary: s)
  case Nil
  have "s = s\<lparr>elements := elements s\<rparr>" by simp
  then show ?case by (metis forRows.simps(1))
next
  case (Cons i "is")
  from Cons.prems obtain el where b: "body s i = Inr (s\<lparr>elements := el\<rparr>)"
    by (metis list.set_intros(1))
  have "\<exists>el'. forRows body is (s\<lparr>elements := el\<rparr>) = Inr (s\<lparr>elements := el\<rparr>\<lparr>elements := el'\<rparr>)"
    using Cons.prems by (intro Cons.IH) auto
  then show ?case using b by auto
qed

lemma setRowHeight_elements:
  "i < length (rowElements s) \<Longrightarrow> rowElements s ! i \<noteq> None \<Longrightarrow>
   \<exists>el. setRowHeight s i = Inr (s\<lparr>elements := el\<rparr>)"
  by (auto simp add: setRowHeight_def array_get_def split: option.splits)

lemma renderRow_elements:
  "i < length (rowElements s) \<Longrightarrow> rowElements s ! i \<noteq> None \<Longrightarrow>
   \<exists>el. renderRow translate s i = Inr (s\<lparr>elements := el\<rparr>)"
  by (auto simp add: renderRow_def array_get_def Let_def split: option.splits)

lemma refreshRowsDimensions_elements:
  assumes "rowElements s = map Some cs" and "terminal_rows s \<le> length cs"
  shows "\<exists>el. refreshRowsDimensions s = Inr (s\<lparr>elements := el\<rparr>)"
  unfolding refreshRowsDimensions_def
proof (rule forRows_elements)
  show "\<forall>i\<in>set [0..<terminal_rows s]. i < length (rowElements s) \<and> rowElements s ! i \<noteq> None"
    using assms by simp
qed (rule setRowHeight_elements)

lemma onResize_result:
  assumes inv1: "rowElements s = map Some (rowContainer_children s)"
    and inv2: "distinct (rowContainer_children s)"
    and inv3: "\<forall>n\<in>set (rowContainer_children s). n < created s"
    and tr: "terminal_rows s = rows"
  shows "\<exists>s'. onResize s cols rows = Inr s'
     \<and> rowContainer_children s'
         = take rows (rowContainer_children s)
           @ [created s..<created s + (rows - length (rowContainer_children s))]
     \<and> rowElements s' = map Some (rowContainer_children s')
     \<and> created s' = created s + (rows - length (rowContainer_children s))
     \<and> terminal_rows s' = rows
     \<and> actualCellHeight s' = actualCellHeight s
     \<and> buffer_ydisp s' = buffer_ydisp s
     \<and> renderRowsDebouncer s' = renderRowsDebouncer s"
proof -
  let ?cs = "rowContainer_children s"
  let ?k = "rows - length ?cs"
  let ?new = "[created s..<created s + ?k]"
  let ?s1 = "fold addRow [length ?cs..<terminal_rows s] s"
  have idx: "[length ?cs..<terminal_rows s] = [length ?cs..<length ?cs + ?k]"
    using tr by (cases "length ?cs \<le> rows") simp_all
  from fold_addRow [OF inv1 inv3, of ?k]
  have f: "rowElements ?s1 = map Some (?cs @ ?new)"
      "rowContainer_children ?s1 = ?cs @ ?new"
      "created ?s1 = created s + ?k"
      "terminal_rows ?s1 = terminal_rows s"
      "actualCellHeight ?s1 = actualCellHeight s"
      "buffer_ydisp ?s1 = buffer_ydisp s"
      "renderRowsDebouncer ?s1 = renderRowsDebouncer s"
    unfolding idx by blast+
  have d: "distinct (rowContainer_children ?s1)"
    using inv2 inv3 by (auto simp add: f(2))
  have i1: "rowElements ?s1 = map Some (rowContainer_children ?s1)"
    by (simp only: f(1,2))
  let ?s2 = "?s1\<lparr>rowElements := take rows (rowElements ?s1),
                    rowContainer_children := take rows (rowContainer_children ?s1)\<rparr>"
  have sh: "shrinkRows ?s1 rows = Inr ?s2"
    using shrinkRows_result [OF i1 d] .
  have tk: "take rows (?cs @ ?new) = take rows ?cs @ ?new"
    by (cases "length ?cs \<le> rows") simp_all
  have c2: "rowContainer_children ?s2 = take rows ?cs @ ?new"
  proof -
    have "rowContainer_children ?s2 = take rows (rowContainer_children ?s1)" by simp
    then show ?thesis by (simp only: f(2) tk)
  qed
  have r2: "rowElements ?s2 = map Some (take rows ?cs @ ?new)"
  proof -
    have "rowElements ?s2 = take rows (rowElements ?s1)" by simp
    then show ?thesis by (simp only: f(1) take_map tk)
  qed
  have o2: "created ?s2 = created s + ?k" "terminal_rows ?s2 = rows"
      "actualCellHeight ?s2 = actualCellHeight s" "buffer_ydisp ?s2 = buffer_ydisp s"
      "renderRowsDebouncer ?s2 = renderRowsDebouncer s"
    using f(3-7) tr by simp_all
  have t2: "terminal_rows ?s2 \<le> length (take rows ?cs @ ?new)"
    unfolding o2(2) by simp
  from refreshRowsDimensions_elements [OF r2 t2]
  obtain el where rd: "refreshRowsDimensions ?s2 = Inr (?s2\<lparr>elements := el\<rparr>)"
    by blast
  have res: "onResize s cols rows = Inr (?s2\<lparr>elements := el\<rparr>)"
    unfolding onResize_def Let_def sh by (simp only: sum.case rd)
  let ?s3 = "?s2\<lparr>elements := el\<rparr>"
  have g: "rowContainer_children ?s3 = rowContainer_children ?s2"
      "rowElements ?s3 = rowElements ?s2" "created ?s3 = created ?s2"
      "terminal_rows ?s3 = terminal_rows ?s2" "actualCellHeight ?s3 = actualCellHeight ?s2"
      "buffer_ydisp ?s3 = buffer_ydisp ?s2" "renderRowsDebouncer ?s3 = renderRowsDebouncer ?s2"
    by simp_all
  show ?thesis
  proof (intro exI conjI)
    show "onResize s cols rows = Inr ?s3" by (rule res)
    show "rowContainer_children ?s3 = take rows ?cs @ ?new" by (simp only: g c2)
    show "rowElements ?s3 = map Some (rowContainer_children ?s3)" by (simp only: g c2 r2)
    show "created ?s3 = created s + ?k" by (simp only: g o2)
    show "terminal_rows ?s3 = rows" by (simp only: g o2)
    show "actualCellHeight ?s3 = actualCellHeight s" by (simp only: g o2)
    show "buffer_ydisp ?s3 = buffer_ydisp s" by (simp only: g o2)
    show "renderRowsDebouncer ?s3 = renderRowsDebouncer s" by (simp only: g o2)
  qed
qed

lemma new_AccessibilityManager_result:
  "\<exists>s. new_AccessibilityManager rows ydisp cellHeight = Inr s
     \<and> rowContainer_children s = [2..<2 + rows]
     \<and> rowElements s = map Some (rowContainer_children s)
     \<and> created s = rows + 3
     \<and> terminal_rows s = rows
     \<and> renderRowsDebouncer s = \<lparr>pendingRange = Some (0, rows - 1), scheduledFlushes = 1\<rparr>"
proof -
  let ?s0 = "\<lparr>terminal_rows = rows, buffer_ydisp = ydisp, actualCellHeight = cellHeight,
                created = 2, elements = (\<lambda>n. blank), rowContainer_children = [],
                rowElements = [], renderRowsDebouncer = new_RenderDebouncer\<rparr>"
  let ?s1 = "fold addRow [0..<terminal_rows ?s0] ?s0"
  have a: "rowElements ?s0 = map Some (rowContainer_children ?s0)" by simp
  have b: "\<forall>n\<in>set (rowContainer_children ?s0). n < created ?s0" by simp
  have z: "[0..<terminal_rows ?s0]
     = [length (rowContainer_children ?s0)..<length (rowContainer_children ?s0) + rows]"
    by simp
  from fold_addRow [OF a b, of rows]
  have f: "rowElements ?s1 = map Some ([] @ [2..<2 + rows])"
      "rowContainer_children ?s1 = [] @ [2..<2 + rows]"
      "created ?s1 = 2 + rows"
      "terminal_rows ?s1 = rows"
      "renderRowsDebouncer ?s1 = new_RenderDebouncer"
    unfolding z by (simp_all del: upt_rec_numeral)
  have f1: "rowElements ?s1 = map Some [2..<2 + rows]"
    using f(1) by (simp only: append_Nil)
  have "length [2..<2 + rows] = rows"
    by (simp only: length_upt add_diff_cancel_left')
  then have t: "terminal_rows ?s1 \<le> length [2..<2 + rows]"
    by (simp only: f(4) order_refl)
  from refreshRowsDimensions_elements [OF f1 t]
  obtain el where rd: "refreshRowsDimensions ?s1 = Inr (?s1\<lparr>elements := el\<rparr>)"
    by blast
  let ?s3 = "refreshRows (?s1\<lparr>elements := el\<rparr>) None None"
  have res: "new_AccessibilityManager rows ydisp cellHeight = Inr (?s3\<lparr>created := Suc (created ?s3)\<rparr>)"
    unfolding new_AccessibilityManager_def Let_def rd by (simp only: sum.case)
  let ?s = "?s3\<lparr>created := Suc (created ?s3)\<rparr>"
  have g: "rowContainer_children ?s = rowContainer_children ?s1"
      "rowElements ?s = rowElements ?s1" "created ?s = Suc (created ?s1)"
      "terminal_rows ?s = terminal_rows ?s1"
      "renderRowsDebouncer ?s = refresh (terminal_rows ?s1) (renderRowsDebouncer ?s1) None None"
    unfolding refreshRows_def by simp_all
  show ?thesis
  proof (intro exI conjI)
    show "new_AccessibilityManager rows ydisp cellHeight = Inr ?s" by (rule res)
    show "rowContainer_children ?s = [2..<2 + rows]" by (simp only: g f append_Nil)
    show "rowElements ?s = map Some (rowContainer_children ?s)" by (simp only: g f)
    show "created ?s = rows + 3" unfolding g f by simp
    show "terminal_rows ?s = rows" by (simp only: g f)
    show "renderRowsDebouncer ?s = \<lparr>pendingRange = Some (0, rows - 1), scheduledFlushes = 1\<rparr>"
      unfolding g f by (simp add: refresh_def new_RenderDebouncer_def)
  qed
qed

lemma resize_event_result:
  assumes inv1: "rowElements s = map Some (rowContainer_children s)"
    and inv2: "distinct (rowContainer_children s)"
    and inv3: "\<forall>n\<in>set (rowContainer_children s). n < created s"
  shows "\<exists>s'. resize_event s cols rows = Inr s'
     \<and> rowContainer_children s'
         = take rows (rowContainer_children s)
           @ [created s..<created s + (rows - length (rowContainer_children s))]
     \<and> rowElements s' = map Some (rowContainer_children s')
     \<and> created s' = created s + (rows - length (rowContainer_children s))
     \<and> terminal_rows s' = rows
     \<and> distinct (rowContainer_children s')
     \<and> (\<forall>n\<in>set (rowContainer_children s'). n < created s')"
proof -
  let ?t = "s\<lparr>terminal_rows := rows\<rparr>"
  have a: "rowElements ?t = map Some (rowContainer_children ?t)" using inv1 by simp
  have b: "distinct (rowContainer_children ?t)" using inv2 by simp
  have c: "\<forall>n\<in>set (rowContainer_children ?t). n < created ?t" using inv3 by simp
  have d: "terminal_rows ?t = rows" by simp
  from onResize_result [OF a b c d, of cols]
  obtain s' where big: "onResize ?t cols rows = Inr s'
     \<and> rowContainer_children s'
         = take rows (rowContainer_children ?t)
           @ [created ?t..<created ?t + (rows - length (rowContainer_children ?t))]
     \<and> rowElements s' = map Some (rowContainer_children s')
     \<and> created s' = created ?t + (rows - length (rowContainer_children ?t))
     \<and> terminal_rows s' = rows
     \<and> actualCellHeight s' = actualCellHeight ?t
     \<and> buffer_ydisp s' = buffer_ydisp ?t
     \<and> renderRowsDebouncer s' = renderRowsDebouncer ?t"
    by (rule exE)
  then have r: "onResize ?t cols rows = Inr s'"
    and ch: "rowContainer_children s'
         = take rows (rowContainer_children s)
           @ [created s..<created s + (rows - length (rowContainer_children s))]"
    and e: "rowElements s' = map Some (rowContainer_children s')"
    and k: "created s' = created s + (rows - length (rowContainer_children s))"
    and t: "terminal_rows s' = rows"
    by simp_all
  have old: "\<forall>n\<in>set (take rows (rowContainer_children s)). n < created s"
    using inv3 by (blast dest: in_set_takeD)
  have di: "distinct (rowContainer_children s')"
    unfolding ch using inv2 old by (fastforce simp add: distinct_take)
  have fr: "\<forall>n\<in>set (rowContainer_children s'). n < created s'"
    unfolding ch k using old by fastforce
  show ?thesis
    unfolding resize_event_def using r ch e k t di fr by blast
qed

subsection \<open>Resizing\<close>

text \<open>
  Claim C6. The constructor leaves one row element per row of the terminal, the array
  \<^verbatim>\<open>_rowElements\<close> listing the children of the row container, which are distinct
  and were all created before. In every such state, \<^verbatim>\<open>_onResize\<close> for the row count
  that the terminal has returns without an exception and leaves exactly that many row
  elements: the first ones are the old elements in their order, the ones beyond the old
  length are newly created and come last, and the state is again such a state.
\<close>

theorem C6_resize_length:
  "(case new_AccessibilityManager rows0 ydisp cellHeight of
      Inl e \<Rightarrow> False
    | Inr s0 \<Rightarrow>
        length (rowElements s0) = rows0 \<and> terminal_rows s0 = rows0
        \<and> rowContainer_children s0 = [2..<2 + rows0] \<and> created s0 = rows0 + 3
        \<and> rowElements s0 = map Some (rowContainer_children s0)
        \<and> distinct (rowContainer_children s0)
        \<and> (\<forall>n\<in>set (rowContainer_children s0). n < created s0))
   \<and> (rowElements s = map Some (rowContainer_children s)
        \<and> distinct (rowContainer_children s)
        \<and> (\<forall>n\<in>set (rowContainer_children s). n < created s)
        \<and> terminal_rows s = rows \<longrightarrow>
      (case onResize s cols rows of
         Inl e \<Rightarrow> False
       | Inr s' \<Rightarrow>
           length (rowElements s') = rows
           \<and> rowElements s'
               = take rows (rowElements s)
                 @ map Some [created s..<created s + (rows - length (rowElements s))]
           \<and> terminal_rows s' = rows
           \<and> rowElements s' = map Some (rowContainer_children s')
           \<and> distinct (rowContainer_children s')
           \<and> (\<forall>n\<in>set (rowContainer_children s'). n < created s')))"
proof (intro conjI impI)
  from new_AccessibilityManager_result [of rows0 ydisp cellHeight]
  obtain s0 where n: "new_AccessibilityManager rows0 ydisp cellHeight = Inr s0"
    and c: "rowContainer_children s0 = [2..<2 + rows0]"
    and e: "rowElements s0 = map Some (rowContainer_children s0)"
    and k: "created s0 = rows0 + 3"
    and t: "terminal_rows s0 = rows0"
    by blast
  have l: "length (rowElements s0) = rows0"
    unfolding e c by (simp only: length_map length_upt add_diff_cancel_left')
  have d: "distinct (rowContainer_children s0)"
    unfolding c by (rule distinct_upt)
  have f: "\<forall>n\<in>set (rowContainer_children s0). n < created s0"
    unfolding c k set_upt by auto
  show "case new_AccessibilityManager rows0 ydisp cellHeight of
      Inl e \<Rightarrow> False
    | Inr s0 \<Rightarrow>
        length (rowElements s0) = rows0 \<and> terminal_rows s0 = rows0
        \<and> rowContainer_children s0 = [2..<2 + rows0] \<and> created s0 = rows0 + 3
        \<and> rowElements s0 = map Some (rowContainer_children s0)
        \<and> distinct (rowContainer_children s0)
        \<and> (\<forall>n\<in>set (rowContainer_children s0). n < created s0)"
    unfolding n using l t c k e d f by (simp only: sum.case simp_thms)
next
  assume h: "rowElements s = map Some (rowContainer_children s)
        \<and> distinct (rowContainer_children s)
        \<and> (\<forall>n\<in>set (rowContainer_children s). n < created s)
        \<and> terminal_rows s = rows"
  then have inv1: "rowElements s = map Some (rowContainer_children s)"
    and inv2: "distinct (rowContainer_children s)"
    and inv3: "\<forall>n\<in>set (rowContainer_children s). n < created s"
    and tr: "terminal_rows s = rows"
    by blast+
  from resize_event_result [OF inv1 inv2 inv3, of cols rows]
  obtain s' where r: "onResize s cols rows = Inr s'"
    and c: "rowContainer_children s'
         = take rows (rowContainer_children s)
           @ [created s..<created s + (rows - length (rowContainer_children s))]"
    and e: "rowElements s' = map Some (rowContainer_children s')"
    and t: "terminal_rows s' = rows"
    and d: "distinct (rowContainer_children s')"
    and fr: "\<forall>n\<in>set (rowContainer_children s'). n < created s'"
    unfolding resize_event_def using tr by auto
  have len: "length (rowElements s') = rows"
    unfolding e c by simp
  have shape: "rowElements s'
       = take rows (rowElements s)
         @ map Some [created s..<created s + (rows - length (rowElements s))]"
    unfolding e c inv1 by (simp only: map_append take_map length_map)
  show "case onResize s cols rows of
         Inl e \<Rightarrow> False
       | Inr s' \<Rightarrow>
           length (rowElements s') = rows
           \<and> rowElements s'
               = take rows (rowElements s)
                 @ map Some [created s..<created s + (rows - length (rowElements s))]
           \<and> terminal_rows s' = rows
           \<and> rowElements s' = map Some (rowContainer_children s')
           \<and> distinct (rowContainer_children s')
           \<and> (\<forall>n\<in>set (rowContainer_children s'). n < created s')"
    unfolding r using len shape t e d fr by (simp only: sum.case simp_thms)
qed

text \<open>
  The theorem at the manager of a terminal of 3 rows, resized to 5 rows and to 1 row.
\<close>

theorem C6_resize_length_witness:
  "(case new_AccessibilityManager 3 0 17 of
      Inl e \<Rightarrow> False
    | Inr s0 \<Rightarrow>
        rowElements s0 = [Some 2, Some 3, Some 4]
        \<and> (case onResize (s0\<lparr>terminal_rows := 5\<rparr>) 80 5 of
             Inl e \<Rightarrow> False
           | Inr s' \<Rightarrow> rowElements s' = [Some 2, Some 3, Some 4, Some 6, Some 7])
        \<and> (case onResize (s0\<lparr>terminal_rows := 1\<rparr>) 80 1 of
             Inl e \<Rightarrow> False
           | Inr s' \<Rightarrow> rowElements s' = [Some 2]))"
proof -
  obtain s0 where n: "new_AccessibilityManager 3 0 17 = Inr s0"
    and c: "rowContainer_children s0 = [2, 3, 4]"
    and e: "rowElements s0 = map Some (rowContainer_children s0)"
    and k: "created s0 = 6"
    using C6_resize_length [of 3 0 17]
    by (cases "new_AccessibilityManager 3 0 17") (simp_all add: upt_rec)
  have up: "[6..<8] = [6, 7]" by (simp add: upt_rec)
  have a: "case onResize (s0\<lparr>terminal_rows := 5\<rparr>) 80 5 of
             Inl e \<Rightarrow> False
           | Inr s' \<Rightarrow> rowElements s' = [Some 2, Some 3, Some 4, Some 6, Some 7]"
    using C6_resize_length [of 3 0 17 "s0\<lparr>terminal_rows := 5\<rparr>" 5 80] c e k up
    by (simp split: sum.splits)
  have b: "case onResize (s0\<lparr>terminal_rows := 1\<rparr>) 80 1 of
             Inl e \<Rightarrow> False
           | Inr s' \<Rightarrow> rowElements s' = [Some 2]"
    using C6_resize_length [of 3 0 17 "s0\<lparr>terminal_rows := 1\<rparr>" 1 80] c e k
    by (simp split: sum.splits)
  show ?thesis
    unfolding n using a b c e by simp
qed

lemma shrink_regrow:
  assumes inv1: "rowElements s0 = map Some (rowContainer_children s0)"
    and inv2: "distinct (rowContainer_children s0)"
    and inv3: "\<forall>n\<in>set (rowContainer_children s0). n < created s0"
    and le: "m \<le> length (rowContainer_children s0)"
  shows "\<exists>s1 s2. resize_event s0 c1 m = Inr s1
     \<and> resize_event s1 c2 (length (rowContainer_children s0)) = Inr s2
     \<and> rowContainer_children s1 = take m (rowContainer_children s0)
     \<and> rowElements s1 = map Some (rowContainer_children s1)
     \<and> rowContainer_children s2
         = take m (rowContainer_children s0)
           @ [created s0..<created s0 + (length (rowContainer_children s0) - m)]
     \<and> rowElements s2 = map Some (rowContainer_children s2)"
proof -
  let ?cs = "rowContainer_children s0"
  from resize_event_result [OF inv1 inv2 inv3, of c1 m]
  obtain s1 where r1: "resize_event s0 c1 m = Inr s1"
    and c1: "rowContainer_children s1 = take m ?cs @ [created s0..<created s0 + (m - length ?cs)]"
    and e1: "rowElements s1 = map Some (rowContainer_children s1)"
    and k1: "created s1 = created s0 + (m - length ?cs)"
    and d1: "distinct (rowContainer_children s1)"
    and f1: "\<forall>n\<in>set (rowContainer_children s1). n < created s1"
    by blast
  have z: "m - length ?cs = 0" using le by simp
  have c1': "rowContainer_children s1 = take m ?cs" unfolding c1 z by simp
  have k1': "created s1 = created s0" unfolding k1 z by simp
  from resize_event_result [OF e1 d1 f1, of c2 "length ?cs"]
  obtain s2 where r2: "resize_event s1 c2 (length ?cs) = Inr s2"
    and c2: "rowContainer_children s2
        = take (length ?cs) (rowContainer_children s1)
          @ [created s1..<created s1 + (length ?cs - length (rowContainer_children s1))]"
    and e2: "rowElements s2 = map Some (rowContainer_children s2)"
    by blast
  have l1: "length (rowContainer_children s1) = m" unfolding c1' using le by simp
  have t1: "take (length ?cs) (rowContainer_children s1) = take m ?cs"
    unfolding c1' using le by simp
  have c2': "rowContainer_children s2 = take m ?cs @ [created s0..<created s0 + (length ?cs - m)]"
    unfolding c2 t1 l1 k1' ..
  show ?thesis
    using r1 r2 c1' e1 c2' e2 by blast
qed

lemma three_rows:
  "\<exists>s0. new_AccessibilityManager 3 0 17 = Inr s0
     \<and> rowContainer_children s0 = [2, 3, 4]
     \<and> rowElements s0 = [Some 2, Some 3, Some 4]
     \<and> created s0 = 6"
proof -
  from new_AccessibilityManager_result [of 3 0 17]
  obtain s0 where n: "new_AccessibilityManager 3 0 17 = Inr s0"
    and c: "rowContainer_children s0 = [2..<2 + 3]"
    and e: "rowElements s0 = map Some (rowContainer_children s0)"
    and k: "created s0 = 3 + 3"
    by blast
  have u: "[2..<2 + 3] = [2, 3, (4::nat)]" by (simp add: upt_rec)
  show ?thesis
    using n c e k u by simp
qed

text \<open>
  Claim C7, as amended. Shrinking to \<open>m\<close> rows and growing back to the row count
  from before keeps the same element at each of the first \<open>m\<close> indices; the indices
  from \<open>m\<close> on hold elements created by the second resize, none of which was a row
  before.
\<close>

theorem C7_shrink_regrow:
  "rowElements s0 = map Some (rowContainer_children s0)
     \<and> distinct (rowContainer_children s0)
     \<and> (\<forall>n\<in>set (rowContainer_children s0). n < created s0)
     \<and> m \<le> length (rowElements s0) \<longrightarrow>
   (case resize_event s0 c1 m of
      Inl e \<Rightarrow> False
    | Inr s1 \<Rightarrow>
        length (rowElements s1) = m
        \<and> (case resize_event s1 c2 (length (rowElements s0)) of
             Inl e \<Rightarrow> False
           | Inr s2 \<Rightarrow>
               length (rowElements s2) = length (rowElements s0)
               \<and> take m (rowElements s2) = take m (rowElements s0)
               \<and> drop m (rowElements s2)
                   = map Some [created s0..<created s0 + (length (rowElements s0) - m)]
               \<and> (\<forall>x\<in>set (drop m (rowElements s2)). x \<notin> set (rowElements s0))))"
proof
  assume h: "rowElements s0 = map Some (rowContainer_children s0)
     \<and> distinct (rowContainer_children s0)
     \<and> (\<forall>n\<in>set (rowContainer_children s0). n < created s0)
     \<and> m \<le> length (rowElements s0)"
  let ?cs = "rowContainer_children s0"
  let ?new = "[created s0..<created s0 + (length ?cs - m)]"
  from h have inv1: "rowElements s0 = map Some ?cs"
    and inv2: "distinct ?cs"
    and inv3: "\<forall>n\<in>set ?cs. n < created s0"
    by blast+
  from h inv1 have le: "m \<le> length ?cs" by simp
  have len0: "length (rowElements s0) = length ?cs" unfolding inv1 by simp
  from shrink_regrow [OF inv1 inv2 inv3 le, of c1 c2]
  obtain s1 s2 where r1: "resize_event s0 c1 m = Inr s1"
    and r2: "resize_event s1 c2 (length ?cs) = Inr s2"
    and c1: "rowContainer_children s1 = take m ?cs"
    and e1: "rowElements s1 = map Some (rowContainer_children s1)"
    and c2: "rowContainer_children s2 = take m ?cs @ ?new"
    and e2: "rowElements s2 = map Some (rowContainer_children s2)"
    by blast
  have g1: "length (rowElements s1) = m"
    unfolding e1 c1 using le by simp
  have g2: "length (rowElements s2) = length ?cs"
    unfolding e2 c2 using le by simp
  have g3: "take m (rowElements s2) = take m (rowElements s0)"
    unfolding e2 c2 inv1 using le by (simp add: take_map)
  have g4: "drop m (rowElements s2) = map Some ?new"
    unfolding e2 c2 using le by (simp add: drop_map)
  have g5: "\<forall>x\<in>set (drop m (rowElements s2)). x \<notin> set (rowElements s0)"
    unfolding g4 inv1 using inv3 by fastforce
  show "case resize_event s0 c1 m of
      Inl e \<Rightarrow> False
    | Inr s1 \<Rightarrow>
        length (rowElements s1) = m
        \<and> (case resize_event s1 c2 (length (rowElements s0)) of
             Inl e \<Rightarrow> False
           | Inr s2 \<Rightarrow>
               length (rowElements s2) = length (rowElements s0)
               \<and> take m (rowElements s2) = take m (rowElements s0)
               \<and> drop m (rowElements s2)
                   = map Some [created s0..<created s0 + (length (rowElements s0) - m)]
               \<and> (\<forall>x\<in>set (drop m (rowElements s2)). x \<notin> set (rowElements s0)))"
    unfolding len0 r1 sum.case r2 using g1 g2 g3 g4 g5 by (simp only: simp_thms)
qed

text \<open>
  The theorem at the manager of a terminal of 3 rows, resized to 1 row and back to 3.
\<close>

theorem C7_shrink_regrow_witness:
  "case new_AccessibilityManager 3 0 17 of
     Inl e \<Rightarrow> False
   | Inr s0 \<Rightarrow>
       rowElements s0 = [Some 2, Some 3, Some 4]
       \<and> (case resize_event s0 80 1 of
            Inl e \<Rightarrow> False
          | Inr s1 \<Rightarrow>
              rowElements s1 = [Some 2]
              \<and> (case resize_event s1 80 3 of
                   Inl e \<Rightarrow> False
                 | Inr s2 \<Rightarrow>
                     take 1 (rowElements s2) = [Some 2]
                     \<and> drop 1 (rowElements s2) = [Some 6, Some 7]))"
proof -
  from three_rows obtain s0 where n: "new_AccessibilityManager 3 0 17 = Inr s0"
    and c: "rowContainer_children s0 = [2, 3, 4]"
    and e: "rowElements s0 = [Some 2, Some 3, Some 4]"
    and k: "created s0 = 6"
    by blast
  have h: "rowElements s0 = map Some (rowContainer_children s0)
     \<and> distinct (rowContainer_children s0)
     \<and> (\<forall>n\<in>set (rowContainer_children s0). n < created s0)
     \<and> 1 \<le> length (rowElements s0)"
    by (simp add: c e k)
  have l3: "length (rowElements s0) = 3" by (simp add: e)
  have up: "[6..<6 + (3 - 1)] = [6, 7]" by (simp add: upt_rec)
  have t: "take 1 [Some 2, Some 3, Some (4::nat)] = [Some 2]" by simp
  from C7_shrink_regrow [of s0 1 80 80] h
  have "case resize_event s0 80 1 of
      Inl e \<Rightarrow> False
    | Inr s1 \<Rightarrow>
        length (rowElements s1) = 1
        \<and> (case resize_event s1 80 (length (rowElements s0)) of
             Inl e \<Rightarrow> False
           | Inr s2 \<Rightarrow>
               length (rowElements s2) = length (rowElements s0)
               \<and> take 1 (rowElements s2) = take 1 (rowElements s0)
               \<and> drop 1 (rowElements s2)
                   = map Some [created s0..<created s0 + (length (rowElements s0) - 1)]
               \<and> (\<forall>x\<in>set (drop 1 (rowElements s2)). x \<notin> set (rowElements s0)))"
    by (rule mp)
  then have x: "case resize_event s0 80 1 of
      Inl e \<Rightarrow> False
    | Inr s1 \<Rightarrow>
        length (rowElements s1) = 1
        \<and> (case resize_event s1 80 3 of
             Inl e \<Rightarrow> False
           | Inr s2 \<Rightarrow>
               length (rowElements s2) = 3
               \<and> take 1 (rowElements s2) = take 1 (rowElements s0)
               \<and> drop 1 (rowElements s2)
                   = map Some [created s0..<created s0 + (3 - 1)]
               \<and> (\<forall>x\<in>set (drop 1 (rowElements s2)). x \<notin> set (rowElements s0)))"
    unfolding l3 .
  have "case resize_event s0 80 1 of
            Inl e \<Rightarrow> False
          | Inr s1 \<Rightarrow>
              rowElements s1 = [Some 2]
              \<and> (case resize_event s1 80 3 of
                   Inl e \<Rightarrow> False
                 | Inr s2 \<Rightarrow>
                     take 1 (rowElements s2) = [Some 2]
                     \<and> drop 1 (rowElements s2) = [Some 6, Some 7])"
  proof (cases "resize_event s0 80 1")
    case (Inl e)
    with x show ?thesis by (simp only: sum.case)
  next
    case s1: (Inr s1)
    from x have x1: "length (rowElements s1) = 1"
      and x2: "case resize_event s1 80 3 of
             Inl e \<Rightarrow> False
           | Inr s2 \<Rightarrow>
               length (rowElements s2) = 3
               \<and> take 1 (rowElements s2) = take 1 (rowElements s0)
               \<and> drop 1 (rowElements s2)
                   = map Some [created s0..<created s0 + (3 - 1)]
               \<and> (\<forall>x\<in>set (drop 1 (rowElements s2)). x \<notin> set (rowElements s0))"
      unfolding s1 sum.case by blast+
    from shrink_regrow [of s0 1 80 80] h s1
    have "rowElements s1 = map Some (take 1 (rowContainer_children s0))"
      by (auto simp add: c e)
    then have y: "rowElements s1 = [Some 2]" by (simp add: c)
    show ?thesis
    proof (cases "resize_event s1 80 3")
      case (Inl e)
      with x2 show ?thesis by (simp only: sum.case)
    next
      case s2: (Inr s2)
      from x2 have "take 1 (rowElements s2) = take 1 (rowElements s0)"
        and "drop 1 (rowElements s2) = map Some [created s0..<created s0 + (3 - 1)]"
        unfolding s2 sum.case by blast+
      then have "take 1 (rowElements s2) = [Some 2]"
        and "drop 1 (rowElements s2) = [Some 6, Some 7]"
        unfolding k up e by simp_all
      then show ?thesis
        unfolding s1 sum.case s2 using y by (simp only: simp_thms)
    qed
  qed
  then show ?thesis
    unfolding n sum.case using e by (simp only: simp_thms)
qed

text \<open>
  Claim C7 as stated fails for a terminal of 3 rows resized to 1 row and back to 3: the
  rows at the indices 1 and 2 are the new elements 6 and 7, not the elements 3 and 4 that
  were there before.
\<close>

theorem C7_regrown_rows_are_new:
  "case new_AccessibilityManager 3 0 17 of
     Inl e \<Rightarrow> False
   | Inr s0 \<Rightarrow>
       (case resize_event s0 80 1 of
          Inl e \<Rightarrow> False
        | Inr s1 \<Rightarrow>
            (case resize_event s1 80 3 of
               Inl e \<Rightarrow> False
             | Inr s2 \<Rightarrow>
                 rowElements s0 = [Some 2, Some 3, Some 4]
                 \<and> rowElements s2 = [Some 2, Some 6, Some 7]
                 \<and> rowElements s2 ! 1 \<noteq> rowElements s0 ! 1
                 \<and> rowElements s2 ! 2 \<noteq> rowElements s0 ! 2))"
proof -
  from three_rows obtain s0 where n: "new_AccessibilityManager 3 0 17 = Inr s0"
    and c: "rowContainer_children s0 = [2, 3, 4]"
    and e: "rowElements s0 = [Some 2, Some 3, Some 4]"
    and k: "created s0 = 6"
    by blast
  have inv1: "rowElements s0 = map Some (rowContainer_children s0)" by (simp add: c e)
  have inv2: "distinct (rowContainer_children s0)" by (simp add: c)
  have inv3: "\<forall>n\<in>set (rowContainer_children s0). n < created s0" by (simp add: c k)
  have le: "1 \<le> length (rowContainer_children s0)" by (simp add: c)
  from shrink_regrow [OF inv1 inv2 inv3 le, of 80 80]
  obtain s1 s2 where r1: "resize_event s0 80 1 = Inr s1"
    and r2: "resize_event s1 80 (length (rowContainer_children s0)) = Inr s2"
    and c2: "rowContainer_children s2
         = take 1 (rowContainer_children s0)
           @ [created s0..<created s0 + (length (rowContainer_children s0) - 1)]"
    and e2: "rowElements s2 = map Some (rowContainer_children s2)"
    by blast
  have l3: "length (rowContainer_children s0) = 3" by (simp add: c)
  have r2': "resize_event s1 80 3 = Inr s2" using r2 unfolding l3 .
  have up: "[6..<6 + (3 - 1)] = [6, 7]" by (simp add: upt_rec)
  have e2': "rowElements s2 = [Some 2, Some 6, Some 7]"
    unfolding e2 c2 l3 k up by (simp add: c)
  show ?thesis
    unfolding n sum.case r1 r2' by (simp add: e e2')
qed

subsection \<open>Debouncing\<close>

lemma refreshes_pending:
  "pendingRange d = Some (lo, hi) \<Longrightarrow>
   refreshes rows d rs
     = d\<lparr>pendingRange := Some (fold min (map fst rs) lo, fold max (map snd rs) hi)\<rparr>"
proof (induction rs arbitrary: d lo hi)
  case Nil
  then show ?case by simp
next
  case (Cons r rs)
  obtain a b where r: "r = (a, b)" by (cases r)
  let ?d = "refresh rows d (Some a) (Some b)"
  have d': "?d = d\<lparr>pendingRange := Some (min lo a, max hi b)\<rparr>"
    using Cons.prems by (simp add: refresh_def)
  then have p: "pendingRange ?d = Some (min lo a, max hi b)" by simp
  show ?case
    unfolding r using Cons.IH [OF p] d' by (simp add: min.commute max.commute)
qed

lemma refreshes_idle:
  assumes "rs \<noteq> []"
  shows "refreshes rows new_RenderDebouncer rs
     = \<lparr>pendingRange = Some (Min (fst ` set rs), Max (snd ` set rs)), scheduledFlushes = 1\<rparr>"
proof -
  from assms obtain a b rs' where rs: "rs = (a, b) # rs'"
    by (cases rs) auto
  let ?d = "refresh rows new_RenderDebouncer (Some a) (Some b)"
  have d: "?d = \<lparr>pendingRange = Some (a, b), scheduledFlushes = 1\<rparr>"
    by (simp add: refresh_def new_RenderDebouncer_def)
  then have p: "pendingRange ?d = Some (a, b)" by simp
  have mn: "fold min (map fst rs') a = Min (fst ` set rs)"
    unfolding rs using Min.set_eq_fold [of a "map fst rs'"] by simp
  have mx: "fold max (map snd rs') b = Max (snd ` set rs)"
    unfolding rs using Max.set_eq_fold [of b "map snd rs'"] by simp
  have "refreshes rows new_RenderDebouncer rs = refreshes rows ?d rs'"
    unfolding rs by simp
  also have "\<dots> = ?d\<lparr>pendingRange := Some (fold min (map fst rs') a, fold max (map snd rs') b)\<rparr>"
    by (rule refreshes_pending [OF p])
  finally show ?thesis
    unfolding mn mx d by simp
qed

lemma refreshRowsAll_eq:
  "refreshRowsAll s rs
     = s\<lparr>renderRowsDebouncer := refreshes (terminal_rows s) (renderRowsDebouncer s) rs\<rparr>"
proof (induction rs arbitrary: s)
  case Nil
  then show ?case by simp
next
  case (Cons r rs)
  obtain a b where r: "r = (a, b)" by (cases r)
  show ?case
    unfolding r by (simp add: Cons.IH refreshRows_def)
qed

text \<open>
  Claim C8. From a manager whose debouncer has nothing pending, any non-empty sequence
  of \<^verbatim>\<open>_refreshRows(start, end)\<close> calls changes only the debouncer: one flush is
  scheduled, and the pending range runs from the least start to the greatest end, so it
  covers every requested range. The flush calls \<^verbatim>\<open>_renderRows\<close> once, with that
  range, and leaves nothing pending. The requests (0,2), (1,4) and (5,5) give one
  scheduled flush for the range (0,5).
\<close>

theorem C8_debounce_coalescing:
  "(rs \<noteq> [] \<and> renderRowsDebouncer s = new_RenderDebouncer \<longrightarrow>
      (let s' = refreshRowsAll s rs;
           lo = Min (fst ` set rs);
           hi = Max (snd ` set rs)
       in s' = s\<lparr>renderRowsDebouncer := \<lparr>pendingRange = Some (lo, hi), scheduledFlushes = 1\<rparr>\<rparr>
        \<and> (\<forall>(a, b)\<in>set rs. lo \<le> a \<and> b \<le> hi)
        \<and> flushRows translate s'
            = (case renderRows translate s' lo hi of
                 Inl e \<Rightarrow> Inl e
               | Inr t \<Rightarrow> Inr (t\<lparr>renderRowsDebouncer := new_RenderDebouncer\<rparr>))))
   \<and> refreshes rows new_RenderDebouncer [(0, 2), (1, 4), (5, 5)]
       = \<lparr>pendingRange = Some (0, 5), scheduledFlushes = 1\<rparr>
   \<and> flush (refreshes rows new_RenderDebouncer [(0, 2), (1, 4), (5, 5)])
       = (Some (0, 5), new_RenderDebouncer)"
proof (intro conjI impI)
  assume h: "rs \<noteq> [] \<and> renderRowsDebouncer s = new_RenderDebouncer"
  let ?lo = "Min (fst ` set rs)" and ?hi = "Max (snd ` set rs)"
  let ?d = "\<lparr>pendingRange = Some (?lo, ?hi), scheduledFlushes = 1\<rparr>"
  have e: "refreshRowsAll s rs = s\<lparr>renderRowsDebouncer := ?d\<rparr>"
    using h refreshes_idle [of rs "terminal_rows s"] by (simp add: refreshRowsAll_eq)
  have cover: "\<forall>(a, b)\<in>set rs. ?lo \<le> a \<and> b \<le> ?hi"
  proof (clarify, intro conjI)
    fix a b assume "(a, b) \<in> set rs"
    then have "a \<in> fst ` set rs" and "b \<in> snd ` set rs" by force+
    then show "?lo \<le> a" and "b \<le> ?hi" by simp_all
  qed
  have fl: "flushRows translate (s\<lparr>renderRowsDebouncer := ?d\<rparr>)
      = (case renderRows translate (s\<lparr>renderRowsDebouncer := ?d\<rparr>) ?lo ?hi of
           Inl e \<Rightarrow> Inl e
         | Inr t \<Rightarrow> Inr (t\<lparr>renderRowsDebouncer := new_RenderDebouncer\<rparr>))"
    unfolding flushRows_def flush_def new_RenderDebouncer_def by simp
  show "let s' = refreshRowsAll s rs;
           lo = Min (fst ` set rs);
           hi = Max (snd ` set rs)
       in s' = s\<lparr>renderRowsDebouncer := \<lparr>pendingRange = Some (lo, hi), scheduledFlushes = 1\<rparr>\<rparr>
        \<and> (\<forall>(a, b)\<in>set rs. lo \<le> a \<and> b \<le> hi)
        \<and> flushRows translate s'
            = (case renderRows translate s' lo hi of
                 Inl e \<Rightarrow> Inl e
               | Inr t \<Rightarrow> Inr (t\<lparr>renderRowsDebouncer := new_RenderDebouncer\<rparr>))"
    unfolding Let_def e using cover fl by (simp only: simp_thms)
next
  show a: "refreshes rows new_RenderDebouncer [(0, 2), (1, 4), (5, 5)]
       = \<lparr>pendingRange = Some (0, 5), scheduledFlushes = 1\<rparr>"
    by (simp add: refresh_def new_RenderDebouncer_def)
  show "flush (refreshes rows new_RenderDebouncer [(0, 2), (1, 4), (5, 5)])
       = (Some (0, 5), new_RenderDebouncer)"
    unfolding a by (simp add: flush_def new_RenderDebouncer_def)
qed

text \<open>
  The theorem at a manager of 6 rows with the three requests.
\<close>

theorem C8_debounce_coalescing_witness:
  "[(0, 2), (1, 4), (5, 5)] \<noteq> ([] :: (nat \<times> nat) list)
   \<and> renderRowsDebouncer
        \<lparr>terminal_rows = 6, buffer_ydisp = 0, actualCellHeight = 17, created = 9,
         elements = (\<lambda>n. blank), rowContainer_children = [2, 3, 4, 5, 6, 7],
         rowElements = [Some 2, Some 3, Some 4, Some 5, Some 6, Some 7],
         renderRowsDebouncer = new_RenderDebouncer\<rparr> = new_RenderDebouncer
   \<and> renderRowsDebouncer
        (refreshRowsAll
          \<lparr>terminal_rows = 6, buffer_ydisp = 0, actualCellHeight = 17, created = 9,
           elements = (\<lambda>n. blank), rowContainer_children = [2, 3, 4, 5, 6, 7],
           rowElements = [Some 2, Some 3, Some 4, Some 5, Some 6, Some 7],
           renderRowsDebouncer = new_RenderDebouncer\<rparr>
          [(0, 2), (1, 4), (5, 5)])
       = \<lparr>pendingRange = Some (0, 5), scheduledFlushes = 1\<rparr>"
  using C8_debounce_coalescing [of "[(0, 2), (1, 4), (5, 5)]"
      "\<lparr>terminal_rows = 6, buffer_ydisp = 0, actualCellHeight = 17, created = 9,
        elements = (\<lambda>n. blank), rowContainer_children = [2, 3, 4, 5, 6, 7],
        rowElements = [Some 2, Some 3, Some 4, Some 5, Some 6, Some 7],
        renderRowsDebouncer = new_RenderDebouncer\<rparr>"]
  by (simp add: Let_def)

subsection \<open>Navigation\<close>

lemmas nav_defs =
  new_NavigationMode_def enter_def leave_def navigateToElement_def scrollLines_def
  querySelector_def removeSelectedId_def rowElement_def array_get_def
  onEscape_def onArrowUp_def onArrowDown_def NavigationMode_onKey_def onKeyUp_def
  onKeyDown_def keyup_def keydown_def Let_def

text \<open>
  Claim C1 at a terminal of 3 rows with the cursor on row 0 and no scrollback.
  \<^verbatim>\<open>enter()\<close> returns with the mode active and row 0 focused. The \<^verbatim>\<open>keyup\<close> event
  of the arrow up (key code 38) then throws a \<^verbatim>\<open>TypeError\<close> instead of returning
  \<^verbatim>\<open>true\<close>, and leaves the focused row at -1 and no element with the identifier of
  the active item.
\<close>

theorem C1_arrow_up_at_top_throws:
  "fst (enter (new_NavigationMode [Some 2, Some 3, Some 4] [2, 3, 4] 0 0)) = Inr ()
   \<and> isNavigationModeActive (snd (enter (new_NavigationMode [Some 2, Some 3, Some 4] [2, 3, 4] 0 0)))
   \<and> navigationModeFocusedRow (snd (enter (new_NavigationMode [Some 2, Some 3, Some 4] [2, 3, 4] 0 0)))
       = Some 0
   \<and> nav_ydisp (snd (enter (new_NavigationMode [Some 2, Some 3, Some 4] [2, 3, 4] 0 0))) = 0
   \<and> fst (keyup (snd (enter (new_NavigationMode [Some 2, Some 3, Some 4] [2, 3, 4] 0 0))) 38)
       = Inl TypeError
   \<and> navigationModeFocusedRow
        (snd (keyup (snd (enter (new_NavigationMode [Some 2, Some 3, Some 4] [2, 3, 4] 0 0))) 38))
       = Some (- 1)
   \<and> activeItems
        (snd (keyup (snd (enter (new_NavigationMode [Some 2, Some 3, Some 4] [2, 3, 4] 0 0))) 38))
       = []"
  by (simp add: nav_defs)

text \<open>
  Claim C3 at a terminal of 3 rows with the cursor on row 2. \<^verbatim>\<open>enter()\<close> returns
  with row 2 focused. The \<^verbatim>\<open>keyup\<close> event of the arrow down (key code 40) then
  throws a \<^verbatim>\<open>TypeError\<close> and leaves the focused row at 3; a second one leaves it
  at 4, and an arrow up from there throws as well.
\<close>

theorem C3_arrow_down_at_bottom_throws:
  "fst (enter (new_NavigationMode [Some 2, Some 3, Some 4] [2, 3, 4] 0 2)) = Inr ()
   \<and> isNavigationModeActive (snd (enter (new_NavigationMode [Some 2, Some 3, Some 4] [2, 3, 4] 0 2)))
   \<and> navigationModeFocusedRow (snd (enter (new_NavigationMode [Some 2, Some 3, Some 4] [2, 3, 4] 0 2)))
       = Some 2
   \<and> fst (keyup (snd (enter (new_NavigationMode [Some 2, Some 3, Some 4] [2, 3, 4] 0 2))) 40)
       = Inl TypeError
   \<and> navigationModeFocusedRow
        (snd (keyup (snd (enter (new_NavigationMode [Some 2, Some 3, Some 4] [2, 3, 4] 0 2))) 40))
       = Some 3
   \<and> fst (keyups (snd (enter (new_NavigationMode [Some 2, Some 3, Some 4] [2, 3, 4] 0 2))) [40, 40, 38])
       = [Inl TypeError, Inl TypeError, Inl TypeError]
   \<and> navigationModeFocusedRow
        (snd (keyups (snd (enter (new_NavigationMode [Some 2, Some 3, Some 4] [2, 3, 4] 0 2))) [40, 40]))
       = Some 4"
  by (simp add: nav_defs)

subsection \<open>Disposal\<close>

lemma disposeEach_root:
  "accessibilityTreeRoot (snd (disposeEach ds s)) = accessibilityTreeRoot s
   \<and> terminal_element_children (snd (disposeEach ds s)) = terminal_element_children s"
  by (induction ds arbitrary: s)
     (auto simp add: NavigationMode_dispose_def split: option.splits prod.splits sum.splits)

lemma dispose_returns:
  assumes "dispose s = (Inr (), s1)"
  shows "accessibilityTreeRoot s1 = None \<and> disposables s1 = None"
  using assms
  by (auto simp add: dispose_def Let_def split: sum.splits option.splits prod.splits)

lemma dispose_released:
  assumes "accessibilityTreeRoot s = None"
  shows "dispose s = (Inl TypeError, s\<lparr>calls := calls s @ [RemoveChild None]\<rparr>)"
  using assms by (simp add: dispose_def Let_def removeChild_def)

lemma dispose_new:
  "dispose (new_lifecycle rows)
     = (Inr (),
        \<lparr>accessibilityTreeRoot = None, rowContainer = None, liveRegionElement = None,
         rowElementsArray = None, disposables = None, navigation_disposables = None,
         terminal_element_children = [],
         calls =
           [RemoveChild (Some 0), Dispose RenderRowsDebouncer,
            Dispose (RowContainerListener ''keyup''), Dispose (RowContainerListener ''keydown''),
            Dispose (TerminalListener ''resize''), Dispose (TerminalListener ''refresh''),
            Dispose (TerminalListener ''scroll''), Dispose (TerminalListener ''a11y.char''),
            Dispose (TerminalListener ''linefeed''), Dispose (TerminalListener ''a11y.tab''),
            Dispose (TerminalListener ''charsizechanged''), Dispose (TerminalListener ''key''),
            Dispose (TerminalListener ''blur''), Dispose (TerminalListener ''dprchange''),
            Dispose (WindowListener ''resize'')]\<rparr>)"
  by (simp add: dispose_def new_lifecycle_def Let_def removeChild_def NavigationMode_dispose_def)

text \<open>
  Claim C2, as amended. Whenever \<^verbatim>\<open>dispose()\<close> has returned, a second call calls
  \<^verbatim>\<open>removeChild\<close> on the element of the terminal again, now with \<^verbatim>\<open>null\<close>,
  throws a \<^verbatim>\<open>TypeError\<close> and calls nothing else. \<^verbatim>\<open>NavigationMode.dispose()\<close>
  called again after it has returned throws a \<^verbatim>\<open>TypeError\<close> and changes nothing. The
  first \<^verbatim>\<open>dispose()\<close> of a manager returns after removing the root from the element
  of the terminal and disposing of each disposable once, in the order of their
  registration.
\<close>

theorem C2_second_dispose_throws:
  "(dispose s = (Inr (), s1) \<longrightarrow>
      dispose s1 = (Inl TypeError, s1\<lparr>calls := calls s1 @ [RemoveChild None]\<rparr>))
   \<and> (NavigationMode_dispose s = (Inr (), s1) \<longrightarrow> NavigationMode_dispose s1 = (Inl TypeError, s1))
   \<and> fst (dispose (new_lifecycle rows)) = Inr ()
   \<and> calls (snd (dispose (new_lifecycle rows)))
       = [RemoveChild (Some 0), Dispose RenderRowsDebouncer,
          Dispose (RowContainerListener ''keyup''), Dispose (RowContainerListener ''keydown''),
          Dispose (TerminalListener ''resize''), Dispose (TerminalListener ''refresh''),
          Dispose (TerminalListener ''scroll''), Dispose (TerminalListener ''a11y.char''),
          Dispose (TerminalListener ''linefeed''), Dispose (TerminalListener ''a11y.tab''),
          Dispose (TerminalListener ''charsizechanged''), Dispose (TerminalListener ''key''),
          Dispose (TerminalListener ''blur''), Dispose (TerminalListener ''dprchange''),
          Dispose (WindowListener ''resize'')]"
proof (intro conjI impI)
  assume "dispose s = (Inr (), s1)"
  then have "accessibilityTreeRoot s1 = None" using dispose_returns by blast
  then show "dispose s1 = (Inl TypeError, s1\<lparr>calls := calls s1 @ [RemoveChild None]\<rparr>)"
    by (rule dispose_released)
next
  assume "NavigationMode_dispose s = (Inr (), s1)"
  then have "navigation_disposables s1 = None"
    by (auto simp add: NavigationMode_dispose_def split: option.splits)
  then show "NavigationMode_dispose s1 = (Inl TypeError, s1)"
    by (simp add: NavigationMode_dispose_def)
qed (simp_all add: dispose_new)

text \<open>
  The theorem at the manager of a terminal of 3 rows.
\<close>

theorem C2_second_dispose_throws_witness:
  "fst (dispose (new_lifecycle 3)) = Inr ()
   \<and> fst (dispose (snd (dispose (new_lifecycle 3)))) = Inl TypeError
   \<and> calls (snd (dispose (snd (dispose (new_lifecycle 3)))))
       = calls (snd (dispose (new_lifecycle 3))) @ [RemoveChild None]
   \<and> fst (NavigationMode_dispose (new_lifecycle 3)) = Inr ()
   \<and> fst (NavigationMode_dispose (snd (NavigationMode_dispose (new_lifecycle 3)))) = Inl TypeError"
proof -
  have a: "dispose (new_lifecycle 3) = (Inr (), snd (dispose (new_lifecycle 3)))"
    by (simp add: dispose_new)
  have b: "NavigationMode_dispose (new_lifecycle 3)
      = (Inr (), snd (NavigationMode_dispose (new_lifecycle 3)))"
    by (simp add: NavigationMode_dispose_def new_lifecycle_def)
  have c: "dispose (snd (dispose (new_lifecycle 3)))
      = (Inl TypeError,
         (snd (dispose (new_lifecycle 3)))
           \<lparr>calls := calls (snd (dispose (new_lifecycle 3))) @ [RemoveChild None]\<rparr>)"
    using C2_second_dispose_throws [of "new_lifecycle 3" "snd (dispose (new_lifecycle 3))" 3] a by blast
  have d: "NavigationMode_dispose (snd (NavigationMode_dispose (new_lifecycle 3)))
      = (Inl TypeError, snd (NavigationMode_dispose (new_lifecycle 3)))"
    using C2_second_dispose_throws [of "new_lifecycle 3" "snd (NavigationMode_dispose (new_lifecycle 3))" 3] b by blast
  have a': "fst (dispose (new_lifecycle 3)) = Inr ()"
    by (simp add: dispose_new)
  have b': "fst (NavigationMode_dispose (new_lifecycle 3)) = Inr ()"
    by (simp add: NavigationMode_dispose_def new_lifecycle_def)
  show ?thesis
    unfolding c d using a' b' by simp
qed

text \<open>
  Claim C2 as stated fails at the manager of a terminal of 3 rows: the second
  \<^verbatim>\<open>dispose()\<close> throws, after one more call of \<^verbatim>\<open>removeChild\<close>.
\<close>

theorem C2_dispose_not_idempotent:
  "fst (dispose (new_lifecycle 3)) = Inr ()
   \<and> fst (dispose (snd (dispose (new_lifecycle 3)))) = Inl TypeError
   \<and> calls (snd (dispose (snd (dispose (new_lifecycle 3)))))
       = calls (snd (dispose (new_lifecycle 3))) @ [RemoveChild None]"
  by (simp add: dispose_new dispose_released)

end
